theory Spec2Isabelle
  imports Complex_Main "HOL-Library.AList"
begin

section \<open>The streaming client of \<^verbatim>\<open>backend/app/services/websocket_client.py\<close>\<close>

text \<open>
  The class \<^verbatim>\<open>OpenAlgoWebSocket\<close> is embedded as a record of its fields and one function
  per method, with the client passed in and returned. Every method runs to completion
  before the next one starts: the interleavings that \<^verbatim>\<open>await\<close> allows between tasks are
  not part of the model. What the class does to the outside (the transport, the callbacks,
  the clock) is written to a log of events kept in the record; what the outside answers
  (whether a connect or a send succeeds, whether a callback raises, how a value that is not
  a string is formatted) is read from an environment that the functions take as a
  parameter.
\<close>

subsection \<open>Values, frames and callbacks\<close>

datatype kind = LTP | QUOTE | DEPTH

text \<open>
  The values of a decoded JSON frame. Numbers are only stored and handed on by the client,
  never computed with, and are kept as rationals.
\<close>

datatype json =
    JNull
  | JBool bool
  | JNum rat
  | JStr string
  | JArr "json list"
  | JObj "(string \<times> json) list"

type_synonym frame = "(string \<times> json) list"

text \<open>\<^verbatim>\<open>data.get(name, default)\<close> on the dictionary of a frame.\<close>

definition dict_get :: "frame \<Rightarrow> string \<Rightarrow> json \<Rightarrow> json" where
  "dict_get data name dflt = (case map_of data name of None \<Rightarrow> dflt | Some v \<Rightarrow> v)"

text \<open>
  A callback is known to the client by its identity only. The arguments of one invocation:
  four for an LTP callback, three for a quote or depth callback.
\<close>

type_synonym callback = nat

datatype cb_args =
    LtpArgs json json json frame
  | DataArgs json json frame

datatype action = Subscribe | Unsubscribe

datatype error = KeyError | ValueError

datatype 'a outcome = Ret 'a | Exc error

text \<open>
  The events of a run, in the order in which they happen:
  \<^item> \<open>Opened ok\<close>: \<^verbatim>\<open>websockets.connect\<close> was called and returned (\<open>ok\<close>) or raised;
  \<^item> \<open>Sent a k e s ok\<close>: \<^verbatim>\<open>ws.send\<close> was called with the request of action \<open>a\<close> and type
    \<open>k\<close> for the instrument \<open>(e, s)\<close>, and returned (\<open>ok\<close>) or raised;
  \<^item> \<open>Slept n\<close>: \<^verbatim>\<open>asyncio.sleep(n)\<close>;
  \<^item> \<open>Invoked c args raised\<close>: the callback \<open>c\<close> was called with \<open>args\<close> and returned or
    raised an \<^verbatim>\<open>Exception\<close>, which the caller caught;
  \<^item> \<open>Shut\<close>: \<^verbatim>\<open>ws.close()\<close>.
\<close>

datatype event =
    Opened bool
  | Sent action kind string string bool
  | Slept nat
  | Invoked callback cb_args bool
  | Shut

text \<open>
  The environment answers from the events so far: \<open>net\<close> whether the transport opens,
  \<open>tx\<close> whether a send goes through, \<open>cb_raises\<close> whether a callback raises on the
  arguments it is given, and \<open>fmt\<close> is Python's \<^verbatim>\<open>str()\<close> on the values that are not strings
  (it decides the key of a frame whose exchange or symbol is not a string).
\<close>

record env =
  net :: "event list \<Rightarrow> bool"
  tx :: "event list \<Rightarrow> bool"
  cb_raises :: "callback \<Rightarrow> cb_args \<Rightarrow> bool"
  fmt :: "json \<Rightarrow> string"

subsection \<open>The client\<close>

text \<open>
  A registry is the dictionary of one subscription type: the keys in insertion order, each
  with its list of callbacks. \<open>ws\<close> says that \<^verbatim>\<open>self.ws\<close> is not \<^verbatim>\<open>None\<close>, and
  \<open>message_task\<close> that the task running \<^verbatim>\<open>_message_handler\<close> has not finished.
\<close>

type_synonym registry = "(string \<times> callback list) list"

record client =
  ws :: bool
  connected :: bool
  reconnect_attempts :: nat
  subs_ltp :: registry
  subs_quote :: registry
  subs_depth :: registry
  ltp_cache :: "string \<rightharpoonup> json"
  quote_cache :: "string \<rightharpoonup> frame"
  depth_cache :: "string \<rightharpoonup> frame"
  message_task :: bool
  running :: bool
  events :: "event list"

definition max_reconnect_attempts :: nat where
  "max_reconnect_attempts = 5"

definition reconnect_delay :: nat where
  "reconnect_delay = 5"

definition init :: client where
  "init = \<lparr> ws = False, connected = False, reconnect_attempts = 0,
            subs_ltp = [], subs_quote = [], subs_depth = [],
            ltp_cache = Map.empty, quote_cache = Map.empty, depth_cache = Map.empty,
            message_task = False, running = False, events = [] \<rparr>"

text \<open>\<^verbatim>\<open>self.subscriptions[sub_type]\<close>, read and written.\<close>

fun subscriptions :: "kind \<Rightarrow> client \<Rightarrow> registry" where
  "subscriptions LTP s = subs_ltp s"
| "subscriptions QUOTE s = subs_quote s"
| "subscriptions DEPTH s = subs_depth s"

fun set_subscriptions :: "kind \<Rightarrow> registry \<Rightarrow> client \<Rightarrow> client" where
  "set_subscriptions LTP r s = s\<lparr>subs_ltp := r\<rparr>"
| "set_subscriptions QUOTE r s = s\<lparr>subs_quote := r\<rparr>"
| "set_subscriptions DEPTH r s = s\<lparr>subs_depth := r\<rparr>"

definition emit :: "event \<Rightarrow> client \<Rightarrow> client" where
  "emit e s = s\<lparr>events := events s @ [e]\<rparr>"

text \<open>\<^verbatim>\<open>_get_symbol_key\<close>: the f-string \<^verbatim>\<open>f"{exchange}:{symbol}"\<close>.\<close>

definition get_symbol_key :: "string \<Rightarrow> string \<Rightarrow> string" where
  "get_symbol_key exchange symbol = exchange @ '':'' @ symbol"

text \<open>How an f-string renders a value of a frame: a string as itself.\<close>

definition py_str :: "env \<Rightarrow> json \<Rightarrow> string" where
  "py_str en v = (case v of JStr x \<Rightarrow> x | _ \<Rightarrow> fmt en v)"

text \<open>\<^verbatim>\<open>str.split(sep)\<close> for a separator of one character.\<close>

fun split_on :: "char \<Rightarrow> string \<Rightarrow> string list" where
  "split_on c [] = [[]]"
| "split_on c (x # xs) =
     (if x = c then [] # split_on c xs
      else (case split_on c xs of [] \<Rightarrow> [[x]] | p # ps \<Rightarrow> (x # p) # ps))"

subsection \<open>Connection\<close>

text \<open>\<^verbatim>\<open>connect\<close>: the client after the call and the value returned.\<close>

definition connect :: "env \<Rightarrow> client \<Rightarrow> client \<times> bool" where
  "connect en s =
     (if connected s then (s, True)
      else if net en (events s)
        then ((emit (Opened True) s)\<lparr>ws := True, connected := True, reconnect_attempts := 0,
                running := True, message_task := True\<rparr>, True)
        else ((emit (Opened False) s)\<lparr>connected := False\<rparr>, False))"

text \<open>
  \<^verbatim>\<open>disconnect\<close>: the read loop is cancelled and awaited, the transport closed, and the
  three registries replaced by empty ones.
\<close>

definition disconnect :: "client \<Rightarrow> client" where
  "disconnect s =
     (let s1 = s\<lparr>running := False\<rparr>;
          s2 = (if message_task s1 then s1\<lparr>message_task := False\<rparr> else s1);
          s3 = (if ws s2 then (emit Shut s2)\<lparr>ws := False\<rparr> else s2)
      in s3\<lparr>connected := False, subs_ltp := [], subs_quote := [], subs_depth := []\<rparr>)"

text \<open>
  \<^verbatim>\<open>_send_subscribe\<close> and \<^verbatim>\<open>_send_unsubscribe\<close>: nothing is sent without a connection; an
  exception of the send is caught and reported as \<^verbatim>\<open>False\<close>.
\<close>

definition send_subscribe :: "env \<Rightarrow> kind \<Rightarrow> string \<Rightarrow> string \<Rightarrow> client \<Rightarrow> client \<times> bool" where
  "send_subscribe en sub_type exchange symbol s =
     (if \<not> connected s \<or> \<not> ws s then (s, False)
      else if tx en (events s) then (emit (Sent Subscribe sub_type exchange symbol True) s, True)
      else (emit (Sent Subscribe sub_type exchange symbol False) s, False))"

definition send_unsubscribe :: "env \<Rightarrow> kind \<Rightarrow> string \<Rightarrow> string \<Rightarrow> client \<Rightarrow> client \<times> bool" where
  "send_unsubscribe en sub_type exchange symbol s =
     (if \<not> connected s \<or> \<not> ws s then (s, False)
      else if tx en (events s) then (emit (Sent Unsubscribe sub_type exchange symbol True) s, True)
      else (emit (Sent Unsubscribe sub_type exchange symbol False) s, False))"

text \<open>
  \<^verbatim>\<open>_resubscribe_all\<close>: the inner loop over the keys of one subscription type, and the outer
  loop over the three types in the order of the dictionary. A key that does not split into
  exactly two parts makes the unpacking \<^verbatim>\<open>exchange, symbol = key.split(":")\<close> raise
  \<^verbatim>\<open>ValueError\<close>, which nothing in the method catches.
\<close>

fun resubscribe_keys :: "env \<Rightarrow> kind \<Rightarrow> string list \<Rightarrow> client \<Rightarrow> client \<times> unit outcome" where
  "resubscribe_keys en k [] s = (s, Ret ())"
| "resubscribe_keys en k (key # keys) s =
     (case split_on CHR '':'' key of
        [exchange, symbol] \<Rightarrow>
          resubscribe_keys en k keys (fst (send_subscribe en k exchange symbol s))
      | _ \<Rightarrow> (s, Exc ValueError))"

fun resubscribe_kinds :: "env \<Rightarrow> kind list \<Rightarrow> client \<Rightarrow> client \<times> unit outcome" where
  "resubscribe_kinds en [] s = (s, Ret ())"
| "resubscribe_kinds en (k # ks) s =
     (case resubscribe_keys en k (map fst (subscriptions k s)) s of
        (s1, Ret u) \<Rightarrow> resubscribe_kinds en ks s1
      | (s1, Exc e) \<Rightarrow> (s1, Exc e))"

definition resubscribe_all :: "env \<Rightarrow> client \<Rightarrow> client \<times> unit outcome" where
  "resubscribe_all en s = resubscribe_kinds en [LTP, QUOTE, DEPTH] s"

text \<open>
  \<^verbatim>\<open>_try_reconnect\<close>: the loop runs while attempts are left and the client is meant to run;
  each round counts the attempt, sleeps, and connects. The first connect that succeeds
  ends it with the resubscription, whose exception it lets through.
\<close>

function try_reconnect :: "env \<Rightarrow> client \<Rightarrow> client \<times> unit outcome" where
  "try_reconnect en s =
     (if reconnect_attempts s < max_reconnect_attempts \<and> running s then
        (let s1 = emit (Slept reconnect_delay) (s\<lparr>reconnect_attempts := reconnect_attempts s + 1\<rparr>)
         in if snd (connect en s1) then resubscribe_all en (fst (connect en s1))
            else try_reconnect en (fst (connect en s1)))
      else (s, Ret ()))"
  by pat_completeness auto
termination
proof (relation "measure (\<lambda>(en, s). max_reconnect_attempts - reconnect_attempts s)")
  show "wf (measure (\<lambda>(en, s). max_reconnect_attempts - reconnect_attempts s))"
    by simp
next
  fix en :: env and s s1 :: client
  assume c: "reconnect_attempts s < max_reconnect_attempts \<and> running s"
    and s1: "s1 = emit (Slept reconnect_delay) (s\<lparr>reconnect_attempts := reconnect_attempts s + 1\<rparr>)"
    and f: "\<not> snd (connect en s1)"
  have "reconnect_attempts (fst (connect en s1)) = reconnect_attempts s + 1"
    using f by (simp add: s1 connect_def emit_def split: if_splits)
  with c show "((en, fst (connect en s1)), (en, s))
      \<in> measure (\<lambda>(en, s). max_reconnect_attempts - reconnect_attempts s)"
    by (simp, arith)
qed

declare try_reconnect.simps [simp del]

subsection \<open>Dispatch of inbound frames\<close>

text \<open>
  The loop over the callbacks of a key. Each call stands in its own \<^verbatim>\<open>try\<close>: when the
  callback raises, the exception is caught (and logged) and the loop goes on. A coroutine
  function is awaited and any other callable is called, with the same arguments.
\<close>

fun notify :: "env \<Rightarrow> callback list \<Rightarrow> cb_args \<Rightarrow> client \<Rightarrow> client" where
  "notify en [] args s = s"
| "notify en (callback # rest) args s =
     (if cb_raises en callback args
      then notify en rest args (emit (Invoked callback args True) s)
      else notify en rest args (emit (Invoked callback args False) s))"

definition handle_ltp :: "env \<Rightarrow> frame \<Rightarrow> client \<Rightarrow> client" where
  "handle_ltp en data s =
     (let exchange = dict_get data ''exchange'' (JStr '''');
          symbol = dict_get data ''symbol'' (JStr '''');
          ltp = dict_get data ''ltp'' (JNum 0);
          key = get_symbol_key (py_str en exchange) (py_str en symbol);
          s1 = s\<lparr>ltp_cache := (ltp_cache s)(key \<mapsto> ltp)\<rparr>
      in case map_of (subscriptions LTP s1) key of
           None \<Rightarrow> s1
         | Some callbacks \<Rightarrow> notify en callbacks (LtpArgs exchange symbol ltp data) s1)"

definition handle_quote :: "env \<Rightarrow> frame \<Rightarrow> client \<Rightarrow> client" where
  "handle_quote en data s =
     (let exchange = dict_get data ''exchange'' (JStr '''');
          symbol = dict_get data ''symbol'' (JStr '''');
          key = get_symbol_key (py_str en exchange) (py_str en symbol);
          s1 = s\<lparr>quote_cache := (quote_cache s)(key \<mapsto> data)\<rparr>;
          s2 = (case map_of data ''ltp'' of
                  None \<Rightarrow> s1
                | Some v \<Rightarrow> s1\<lparr>ltp_cache := (ltp_cache s1)(key \<mapsto> v)\<rparr>)
      in case map_of (subscriptions QUOTE s2) key of
           None \<Rightarrow> s2
         | Some callbacks \<Rightarrow> notify en callbacks (DataArgs exchange symbol data) s2)"

definition handle_depth :: "env \<Rightarrow> frame \<Rightarrow> client \<Rightarrow> client" where
  "handle_depth en data s =
     (let exchange = dict_get data ''exchange'' (JStr '''');
          symbol = dict_get data ''symbol'' (JStr '''');
          key = get_symbol_key (py_str en exchange) (py_str en symbol);
          s1 = s\<lparr>depth_cache := (depth_cache s)(key \<mapsto> data)\<rparr>
      in case map_of (subscriptions DEPTH s1) key of
           None \<Rightarrow> s1
         | Some callbacks \<Rightarrow> notify en callbacks (DataArgs exchange symbol data) s1)"

text \<open>
  \<^verbatim>\<open>_process_message\<close>: the frames of type \<^verbatim>\<open>error\<close>, \<^verbatim>\<open>subscribed\<close> and \<^verbatim>\<open>unsubscribed\<close> are
  logged, and a frame of any other type is passed over.
\<close>

definition process_message :: "env \<Rightarrow> frame \<Rightarrow> client \<Rightarrow> client" where
  "process_message en data s =
     (let msg_type = dict_get data ''type'' (JStr '''')
      in if msg_type = JStr ''ltp'' then handle_ltp en data s
         else if msg_type = JStr ''quote'' then handle_quote en data s
         else if msg_type = JStr ''depth'' then handle_depth en data s
         else s)"

text \<open>
  One round of \<^verbatim>\<open>_message_handler\<close>, by what \<^verbatim>\<open>recv\<close> gives: a frame that decodes, a frame
  that does not (logged, and the loop goes on), or the closure of the transport. On a
  closure the loop marks the client as not connected, tries to reconnect and ends; the
  task that goes on reading is the one a successful connect has started. So \<open>message_task\<close>
  is cleared here, before the reconnection, which does not read it, and set again by the
  connect that succeeds. A loop that finds the client not meant to run, or without a
  transport, ends.
\<close>

datatype received = Message frame | Undecodable | ConnectionClosed

definition message_handler :: "env \<Rightarrow> received \<Rightarrow> client \<Rightarrow> client \<times> unit outcome" where
  "message_handler en r s =
     (if \<not> message_task s then (s, Ret ())
      else if running s \<and> ws s then
        (case r of
           Message data \<Rightarrow> (process_message en data s, Ret ())
         | Undecodable \<Rightarrow> (s, Ret ())
         | ConnectionClosed \<Rightarrow> try_reconnect en (s\<lparr>connected := False, message_task := False\<rparr>))
      else (s\<lparr>message_task := False\<rparr>, Ret ()))"

subsection \<open>The public operations\<close>

text \<open>
  \<^verbatim>\<open>subscribe_ltp\<close>, \<^verbatim>\<open>subscribe_quote\<close> and \<^verbatim>\<open>subscribe_depth\<close> are the same method up to the
  subscription type, and so are the three \<^verbatim>\<open>unsubscribe\<close> methods; each is embedded once,
  with the type as an argument. Reading \<^verbatim>\<open>self.subscriptions[t][key]\<close> for a key that is
  not there raises \<^verbatim>\<open>KeyError\<close>.
\<close>

definition subscribe ::
  "env \<Rightarrow> kind \<Rightarrow> string \<Rightarrow> string \<Rightarrow> callback \<Rightarrow> client \<Rightarrow> client \<times> bool outcome" where
  "subscribe en k exchange symbol callback s =
     (let key = get_symbol_key exchange symbol;
          s1 = (if map_of (subscriptions k s) key = None then
                  (let s0 = set_subscriptions k (AList.update key [] (subscriptions k s)) s
                   in if connected s0 then fst (send_subscribe en k exchange symbol s0) else s0)
                else s)
      in case map_of (subscriptions k s1) key of
           None \<Rightarrow> (s1, Exc KeyError)
         | Some callbacks \<Rightarrow>
             (if callback \<notin> set callbacks
              then (set_subscriptions k
                      (AList.update key (callbacks @ [callback]) (subscriptions k s1)) s1, Ret True)
              else (s1, Ret True)))"

definition unsubscribe ::
  "env \<Rightarrow> kind \<Rightarrow> string \<Rightarrow> string \<Rightarrow> callback option \<Rightarrow> client \<Rightarrow> client \<times> bool outcome" where
  "unsubscribe en k exchange symbol callback s =
     (let key = get_symbol_key exchange symbol
      in case map_of (subscriptions k s) key of
           None \<Rightarrow> (s, Ret True)
         | Some callbacks \<Rightarrow>
             (let s1 = (case callback of
                          Some c \<Rightarrow>
                            (if c \<in> set callbacks
                             then set_subscriptions k
                                    (AList.update key (remove1 c callbacks) (subscriptions k s)) s
                             else s)
                        | None \<Rightarrow> set_subscriptions k (AList.update key [] (subscriptions k s)) s)
              in case map_of (subscriptions k s1) key of
                   None \<Rightarrow> (s1, Exc KeyError)
                 | Some left \<Rightarrow>
                     (if left = [] then
                        (let s2 = set_subscriptions k (AList.delete key (subscriptions k s1)) s1
                         in if connected s2
                            then (fst (send_unsubscribe en k exchange symbol s2), Ret True)
                            else (s2, Ret True))
                      else (s1, Ret True))))"

definition subscribe_ltp :: "env \<Rightarrow> string \<Rightarrow> string \<Rightarrow> callback \<Rightarrow> client \<Rightarrow> client \<times> bool outcome" where
  "subscribe_ltp en = subscribe en LTP"

definition subscribe_quote :: "env \<Rightarrow> string \<Rightarrow> string \<Rightarrow> callback \<Rightarrow> client \<Rightarrow> client \<times> bool outcome" where
  "subscribe_quote en = subscribe en QUOTE"

definition subscribe_depth :: "env \<Rightarrow> string \<Rightarrow> string \<Rightarrow> callback \<Rightarrow> client \<Rightarrow> client \<times> bool outcome" where
  "subscribe_depth en = subscribe en DEPTH"

definition unsubscribe_ltp ::
  "env \<Rightarrow> string \<Rightarrow> string \<Rightarrow> callback option \<Rightarrow> client \<Rightarrow> client \<times> bool outcome" where
  "unsubscribe_ltp en = unsubscribe en LTP"

definition unsubscribe_quote ::
  "env \<Rightarrow> string \<Rightarrow> string \<Rightarrow> callback option \<Rightarrow> client \<Rightarrow> client \<times> bool outcome" where
  "unsubscribe_quote en = unsubscribe en QUOTE"

definition unsubscribe_depth ::
  "env \<Rightarrow> string \<Rightarrow> string \<Rightarrow> callback option \<Rightarrow> client \<Rightarrow> client \<times> bool outcome" where
  "unsubscribe_depth en = unsubscribe en DEPTH"

definition get_ltp :: "string \<Rightarrow> string \<Rightarrow> client \<Rightarrow> json option" where
  "get_ltp exchange symbol s = ltp_cache s (get_symbol_key exchange symbol)"

definition get_quote :: "string \<Rightarrow> string \<Rightarrow> client \<Rightarrow> frame option" where
  "get_quote exchange symbol s = quote_cache s (get_symbol_key exchange symbol)"

definition get_depth :: "string \<Rightarrow> string \<Rightarrow> client \<Rightarrow> frame option" where
  "get_depth exchange symbol s = depth_cache s (get_symbol_key exchange symbol)"

subsection \<open>Runs of the client\<close>

text \<open>
  What can happen to a client: a call of one of its public methods, or one round of its read
  loop. A run applies a list of these, in order, to the client as constructed.
\<close>

datatype op =
    OpConnect
  | OpDisconnect
  | OpSubscribe kind string string callback
  | OpUnsubscribe kind string string "callback option"
  | OpReceive received

fun apply_op :: "env \<Rightarrow> op \<Rightarrow> client \<Rightarrow> client" where
  "apply_op en OpConnect s = fst (connect en s)"
| "apply_op en OpDisconnect s = disconnect s"
| "apply_op en (OpSubscribe k exchange symbol callback) s =
     fst (subscribe en k exchange symbol callback s)"
| "apply_op en (OpUnsubscribe k exchange symbol callback) s =
     fst (unsubscribe en k exchange symbol callback s)"
| "apply_op en (OpReceive r) s = fst (message_handler en r s)"

fun run :: "env \<Rightarrow> op list \<Rightarrow> client \<Rightarrow> client" where
  "run en [] s = s"
| "run en (x # xs) s = run en xs (apply_op en x s)"

subsection \<open>What is observed of a client, and its invariant\<close>

text \<open>The callbacks registered for a key under a subscription type, in the order kept.\<close>

definition callbacks_of :: "kind \<Rightarrow> string \<Rightarrow> client \<Rightarrow> callback list" where
  "callbacks_of k key s = (case map_of (subscriptions k s) key of None \<Rightarrow> [] | Some cbs \<Rightarrow> cbs)"

text \<open>
  The keys of a registry are distinct, as those of a dictionary are, and every key has a
  list of callbacks that is not empty and holds no callback twice.
\<close>

definition registry_ok :: "registry \<Rightarrow> bool" where
  "registry_ok r = (distinct (map fst r) \<and> list_all (\<lambda>(key, callbacks). callbacks \<noteq> [] \<and> distinct callbacks) r)"

text \<open>
  A client is well formed when its three registries are, it holds a transport whenever it
  is marked connected, and its read loop lives only on a client that is meant to run, holds
  a transport and has its attempt counter at zero.
\<close>

definition client_ok :: "client \<Rightarrow> bool" where
  "client_ok s =
     (registry_ok (subs_ltp s) \<and> registry_ok (subs_quote s) \<and> registry_ok (subs_depth s) \<and>
      (connected s \<longrightarrow> ws s) \<and>
      (message_task s \<longrightarrow> running s \<and> ws s \<and> reconnect_attempts s = 0))"

text \<open>
  The end of \<^verbatim>\<open>unsubscribe\<close> once the callbacks of the key have run out: the key is deleted and,
  on a connected client, the request to unsubscribe is sent.
\<close>

definition drop_key :: "env \<Rightarrow> kind \<Rightarrow> string \<Rightarrow> string \<Rightarrow> client \<Rightarrow> client" where
  "drop_key en k e sy s =
     (let s2 = set_subscriptions k (AList.delete (get_symbol_key e sy) (subscriptions k s)) s
      in if connected s then fst (send_unsubscribe en k e sy s2) else s2)"

text \<open>An environment in which the transport always opens and sends, and no callback raises.\<close>

definition env_up :: env where
  "env_up = \<lparr> net = (\<lambda>es. True), tx = (\<lambda>es. True), cb_raises = (\<lambda>c a. False), fmt = (\<lambda>v. []) \<rparr>"


text \<open>An environment in which the transport opens and every send raises.\<close>

definition env_tx_down :: env where
  "env_tx_down = \<lparr> net = (\<lambda>es. True), tx = (\<lambda>es. False), cb_raises = (\<lambda>c a. False), fmt = (\<lambda>v. []) \<rparr>"

text \<open>
  The name of a subscription type: its key in \<^verbatim>\<open>self.subscriptions\<close> and the \<^verbatim>\<open>type\<close> of its
  data frames.
\<close>

fun kind_str :: "kind \<Rightarrow> string" where
  "kind_str LTP = ''ltp''"
| "kind_str QUOTE = ''quote''"
| "kind_str DEPTH = ''depth''"

text \<open>The key under which a handler files a frame, and the arguments it gives the callbacks.\<close>

definition frame_key :: "env \<Rightarrow> frame \<Rightarrow> string" where
  "frame_key en data =
     get_symbol_key (py_str en (dict_get data ''exchange'' (JStr '''')))
                    (py_str en (dict_get data ''symbol'' (JStr '''')))"

fun frame_args :: "kind \<Rightarrow> frame \<Rightarrow> cb_args" where
  "frame_args LTP data =
     LtpArgs (dict_get data ''exchange'' (JStr '''')) (dict_get data ''symbol'' (JStr ''''))
             (dict_get data ''ltp'' (JNum 0)) data"
| "frame_args QUOTE data =
     DataArgs (dict_get data ''exchange'' (JStr '''')) (dict_get data ''symbol'' (JStr '''')) data"
| "frame_args DEPTH data =
     DataArgs (dict_get data ''exchange'' (JStr '''')) (dict_get data ''symbol'' (JStr '''')) data"

text \<open>
  A run that connects and subscribes two symbols, the first with a colon in its name.
\<close>

definition colon_run :: "op list" where
  "colon_run = [OpConnect, OpSubscribe LTP ''NSE'' ''A:B'' 1, OpSubscribe LTP ''NSE'' ''INFY'' 2]"

text \<open>An environment in which the transport opens on the first attempt and never again.\<close>

definition env_once :: env where
  "env_once = \<lparr> net = (\<lambda>es. es = []), tx = (\<lambda>es. True), cb_raises = (\<lambda>c a. False), fmt = (\<lambda>v. []) \<rparr>"

text \<open>An environment in which the callback 1 raises on every call.\<close>

definition env_first_raises :: env where
  "env_first_raises = \<lparr> net = (\<lambda>es. True), tx = (\<lambda>es. True), cb_raises = (\<lambda>c a. c = 1), fmt = (\<lambda>v. []) \<rparr>"

text \<open>An LTP frame and a quote frame for INFY on NSE.\<close>

definition infy_ltp :: frame where
  "infy_ltp = [(''type'', JStr ''ltp''), (''exchange'', JStr ''NSE''), (''symbol'', JStr ''INFY''),
               (''ltp'', JNum 1500.5)]"

definition infy_quote :: frame where
  "infy_quote = [(''type'', JStr ''quote''), (''exchange'', JStr ''NSE''), (''symbol'', JStr ''INFY''),
                 (''open'', JNum 1490), (''ltp'', JNum 1501), (''volume'', JNum 120000)]"

text \<open>
  The requests that a list of events has handed to the transport, whether the send went
  through or not; the request that the resubscription makes for a key that splits into an
  exchange and a symbol; and the keys that do split so.
\<close>

fun requests :: "event list \<Rightarrow> (action \<times> kind \<times> string \<times> string) list" where
  "requests [] = []"
| "requests (Sent a k e sy ok # es) = (a, k, e, sy) # requests es"
| "requests (x # es) = requests es"

definition key_request :: "kind \<Rightarrow> string \<Rightarrow> action \<times> kind \<times> string \<times> string" where
  "key_request k key =
     (case split_on CHR '':'' key of
        [e, sy] \<Rightarrow> (Subscribe, k, e, sy)
      | _ \<Rightarrow> (Subscribe, k, [], []))"

definition two_parts :: "string \<Rightarrow> bool" where
  "two_parts key = (length (split_on CHR '':'' key) = 2)"

section \<open>Properties\<close>

subsection \<open>Registries\<close>

lemma registry_ok_iff:
  "registry_ok r \<longleftrightarrow>
     distinct (map fst r) \<and> (\<forall>key cbs. map_of r key = Some cbs \<longrightarrow> cbs \<noteq> [] \<and> distinct cbs)"
proof (cases "distinct (map fst r)")
  case True
  then show ?thesis
    by (simp add: registry_ok_def list_all_iff split_beta) (metis prod.collapse fst_conv snd_conv)
next
  case False
  then show ?thesis by (simp add: registry_ok_def)
qed

lemma registry_ok_update:
  "registry_ok r \<Longrightarrow> cbs \<noteq> [] \<Longrightarrow> distinct cbs \<Longrightarrow> registry_ok (AList.update key cbs r)"
  by (simp add: registry_ok_iff distinct_update update_conv')

lemma registry_ok_update2:
  "registry_ok r \<Longrightarrow> cbs \<noteq> [] \<Longrightarrow> distinct cbs \<Longrightarrow> registry_ok (AList.update key cbs (AList.update key x r))"
  by (simp add: registry_ok_iff distinct_update update_conv')

lemma registry_ok_delete:
  "distinct (map fst r) \<Longrightarrow> \<forall>k cbs. k \<noteq> key \<longrightarrow> map_of r k = Some cbs \<longrightarrow> cbs \<noteq> [] \<and> distinct cbs \<Longrightarrow> registry_ok (AList.delete key r)"
  by (auto simp add: registry_ok_iff distinct_delete delete_conv')

lemma subscriptions_set [simp]:
  "subscriptions k (set_subscriptions k' r s) = (if k = k' then r else subscriptions k s)"
  by (cases k; cases k') simp_all

lemma set_subscriptions_fields [simp]:
  "ws (set_subscriptions k r s) = ws s"
  "connected (set_subscriptions k r s) = connected s"
  "reconnect_attempts (set_subscriptions k r s) = reconnect_attempts s"
  "ltp_cache (set_subscriptions k r s) = ltp_cache s"
  "quote_cache (set_subscriptions k r s) = quote_cache s"
  "depth_cache (set_subscriptions k r s) = depth_cache s"
  "message_task (set_subscriptions k r s) = message_task s"
  "running (set_subscriptions k r s) = running s"
  "events (set_subscriptions k r s) = events s"
  by (cases k; simp)+

lemma subscriptions_events [simp]: "subscriptions k (s\<lparr>events := es\<rparr>) = subscriptions k s"
  by (cases k) simp_all

lemma client_ok_alt:
  "client_ok s \<longleftrightarrow>
     (\<forall>k. registry_ok (subscriptions k s)) \<and> (connected s \<longrightarrow> ws s) \<and>
     (message_task s \<longrightarrow> running s \<and> ws s \<and> reconnect_attempts s = 0)"
proof -
  have "(\<forall>k. registry_ok (subscriptions k s)) \<longleftrightarrow>
      registry_ok (subs_ltp s) \<and> registry_ok (subs_quote s) \<and> registry_ok (subs_depth s)"
  proof
    assume a: "\<forall>k. registry_ok (subscriptions k s)"
    from a [rule_format, of LTP] a [rule_format, of QUOTE] a [rule_format, of DEPTH]
    show "registry_ok (subs_ltp s) \<and> registry_ok (subs_quote s) \<and> registry_ok (subs_depth s)"
      by simp
  next
    assume a: "registry_ok (subs_ltp s) \<and> registry_ok (subs_quote s) \<and> registry_ok (subs_depth s)"
    show "\<forall>k. registry_ok (subscriptions k s)"
    proof
      fix k show "registry_ok (subscriptions k s)" using a by (cases k) simp_all
    qed
  qed
  then show ?thesis by (simp add: client_ok_def)
qed

lemma client_ok_events [simp]: "client_ok (s\<lparr>events := es\<rparr>) = client_ok s"
  by (simp add: client_ok_def)

lemma client_ok_init: "client_ok init"
  by (simp add: client_ok_def init_def registry_ok_def)

lemma client_ok_connect: "client_ok s \<Longrightarrow> client_ok (fst (connect en s))"
  by (simp add: client_ok_def connect_def emit_def)

lemma client_ok_disconnect: "client_ok (disconnect s)"
  by (simp add: client_ok_def disconnect_def emit_def Let_def registry_ok_def)

lemma send_subscribe_events:
  "fst (send_subscribe en k e sy s) = s\<lparr>events := events (fst (send_subscribe en k e sy s))\<rparr>"
  by (simp add: send_subscribe_def emit_def)

lemma send_unsubscribe_events:
  "fst (send_unsubscribe en k e sy s) = s\<lparr>events := events (fst (send_unsubscribe en k e sy s))\<rparr>"
  by (simp add: send_unsubscribe_def emit_def)

lemma client_ok_send_subscribe [simp]:
  "client_ok (fst (send_subscribe en k e sy s)) = client_ok s"
  by (subst send_subscribe_events) (simp only: client_ok_events)

lemma client_ok_send_unsubscribe [simp]:
  "client_ok (fst (send_unsubscribe en k e sy s)) = client_ok s"
  by (subst send_unsubscribe_events) (simp only: client_ok_events)

lemma subscriptions_send_subscribe [simp]:
  "subscriptions k' (fst (send_subscribe en k e sy s)) = subscriptions k' s"
  by (subst send_subscribe_events) (simp only: subscriptions_events)

lemma subscriptions_send_unsubscribe [simp]:
  "subscriptions k' (fst (send_unsubscribe en k e sy s)) = subscriptions k' s"
  by (subst send_unsubscribe_events) (simp only: subscriptions_events)

lemma send_subscribe_fields [simp]:
  "ws (fst (send_subscribe en k e sy s)) = ws s"
  "connected (fst (send_subscribe en k e sy s)) = connected s"
  "reconnect_attempts (fst (send_subscribe en k e sy s)) = reconnect_attempts s"
  "ltp_cache (fst (send_subscribe en k e sy s)) = ltp_cache s"
  "quote_cache (fst (send_subscribe en k e sy s)) = quote_cache s"
  "depth_cache (fst (send_subscribe en k e sy s)) = depth_cache s"
  "message_task (fst (send_subscribe en k e sy s)) = message_task s"
  "running (fst (send_subscribe en k e sy s)) = running s"
  by (simp_all add: send_subscribe_def emit_def)

lemma send_unsubscribe_fields [simp]:
  "ws (fst (send_unsubscribe en k e sy s)) = ws s"
  "connected (fst (send_unsubscribe en k e sy s)) = connected s"
  "reconnect_attempts (fst (send_unsubscribe en k e sy s)) = reconnect_attempts s"
  "ltp_cache (fst (send_unsubscribe en k e sy s)) = ltp_cache s"
  "quote_cache (fst (send_unsubscribe en k e sy s)) = quote_cache s"
  "depth_cache (fst (send_unsubscribe en k e sy s)) = depth_cache s"
  "message_task (fst (send_unsubscribe en k e sy s)) = message_task s"
  "running (fst (send_unsubscribe en k e sy s)) = running s"
  by (simp_all add: send_unsubscribe_def emit_def)

lemma client_ok_set_subscriptions:
  "client_ok s \<Longrightarrow> registry_ok r \<Longrightarrow> client_ok (set_subscriptions k r s)"
  by (simp add: client_ok_alt)

lemma client_ok_registry: "client_ok s \<Longrightarrow> registry_ok (subscriptions k s)"
  by (simp add: client_ok_alt)

lemma subscribe_new:
  assumes "map_of (subscriptions k s) (get_symbol_key e sy) = None"
  shows "subscribe en k e sy c s =
     (set_subscriptions k (AList.update (get_symbol_key e sy) [c] (subscriptions k s))
        (if connected s then fst (send_subscribe en k e sy s) else s), Ret True)"
  using assms
  apply (simp add: subscribe_def Let_def update_conv')
  apply (cases k; simp add: send_subscribe_def emit_def)
  done

lemma subscribe_old:
  assumes "map_of (subscriptions k s) (get_symbol_key e sy) = Some cbs"
  shows "subscribe en k e sy c s =
     (if c \<in> set cbs then s
      else set_subscriptions k (AList.update (get_symbol_key e sy) (cbs @ [c]) (subscriptions k s)) s,
      Ret True)"
  using assms by (simp add: subscribe_def Let_def)

lemma subscribe_returns: "snd (subscribe en k e sy c s) = Ret True"
  by (cases "map_of (subscriptions k s) (get_symbol_key e sy)")
     (simp_all add: subscribe_new subscribe_old)

lemma client_ok_subscribe:
  assumes "client_ok s"
  shows "client_ok (fst (subscribe en k e sy c s))"
proof (cases "map_of (subscriptions k s) (get_symbol_key e sy)")
  case None
  have "registry_ok (AList.update (get_symbol_key e sy) [c] (subscriptions k s))"
    using client_ok_registry [OF assms] by (simp add: registry_ok_update)
  then show ?thesis
    using assms by (simp add: subscribe_new [OF None] client_ok_set_subscriptions)
next
  case (Some cbs)
  have r: "registry_ok (subscriptions k s)" by (rule client_ok_registry [OF assms])
  with Some have "cbs \<noteq> [] \<and> distinct cbs" by (simp add: registry_ok_iff)
  then have "c \<notin> set cbs \<Longrightarrow> registry_ok (AList.update (get_symbol_key e sy) (cbs @ [c]) (subscriptions k s))"
    using r by (simp add: registry_ok_update)
  then show ?thesis
    using assms by (simp add: subscribe_old [OF Some] client_ok_set_subscriptions)
qed

lemma unsubscribe_absent:
  "map_of (subscriptions k s) (get_symbol_key e sy) = None \<Longrightarrow>
     unsubscribe en k e sy cb s = (s, Ret True)"
  by (simp add: unsubscribe_def)

lemma set_subscriptions_twice [simp]:
  "set_subscriptions k r (set_subscriptions k r' s) = set_subscriptions k r s"
  by (cases k) simp_all

lemma unsubscribe_all:
  assumes "map_of (subscriptions k s) (get_symbol_key e sy) = Some cbs"
  shows "unsubscribe en k e sy None s = (drop_key en k e sy s, Ret True)"
  using assms
  by (simp add: unsubscribe_def drop_key_def Let_def update_conv' delete_update_same)

lemma unsubscribe_one:
  assumes "map_of (subscriptions k s) (get_symbol_key e sy) = Some cbs"
  shows "unsubscribe en k e sy (Some c) s =
     (if (if c \<in> set cbs then remove1 c cbs else cbs) = [] then drop_key en k e sy s
      else if c \<in> set cbs
        then set_subscriptions k
               (AList.update (get_symbol_key e sy) (remove1 c cbs) (subscriptions k s)) s
        else s, Ret True)"
  using assms
  by (simp add: unsubscribe_def drop_key_def Let_def update_conv' delete_update_same)

lemma unsubscribe_returns: "snd (unsubscribe en k e sy cb s) = Ret True"
  by (cases "map_of (subscriptions k s) (get_symbol_key e sy)"; cases cb)
     (simp_all add: unsubscribe_absent unsubscribe_all unsubscribe_one)

lemma client_ok_drop_key:
  assumes "client_ok s"
  shows "client_ok (drop_key en k e sy s)"
proof -
  have r: "registry_ok (subscriptions k s)" by (rule client_ok_registry [OF assms])
  then have "registry_ok (AList.delete (get_symbol_key e sy) (subscriptions k s))"
    by (intro registry_ok_delete) (simp_all add: registry_ok_iff)
  then show ?thesis
    using assms by (simp add: drop_key_def Let_def client_ok_set_subscriptions)
qed

lemma client_ok_unsubscribe:
  assumes "client_ok s"
  shows "client_ok (fst (unsubscribe en k e sy cb s))"
proof (cases "map_of (subscriptions k s) (get_symbol_key e sy)")
  case None
  then show ?thesis using assms by (simp add: unsubscribe_absent)
next
  case (Some cbs)
  have r: "registry_ok (subscriptions k s)" by (rule client_ok_registry [OF assms])
  with Some have d: "distinct cbs" by (simp add: registry_ok_iff)
  show ?thesis
  proof (cases cb)
    case None
    then show ?thesis using assms by (simp add: unsubscribe_all [OF Some] client_ok_drop_key)
  next
    case c: (Some c)
    have "remove1 c cbs \<noteq> [] \<Longrightarrow>
        registry_ok (AList.update (get_symbol_key e sy) (remove1 c cbs) (subscriptions k s))"
      using r d by (simp add: registry_ok_update)
    then show ?thesis
      using assms by (simp add: c unsubscribe_one [OF Some] client_ok_drop_key client_ok_set_subscriptions)
  qed
qed

subsection \<open>Dispatch and reconnection keep a client well formed\<close>

lemma notify_events:
  "notify en cbs a s = s\<lparr>events := events s @ map (\<lambda>c. Invoked c a (cb_raises en c a)) cbs\<rparr>"
  by (induction cbs arbitrary: s) (simp_all add: emit_def)

lemma client_ok_caches [simp]:
  "client_ok (s\<lparr>ltp_cache := l\<rparr>) = client_ok s"
  "client_ok (s\<lparr>quote_cache := q\<rparr>) = client_ok s"
  "client_ok (s\<lparr>depth_cache := d\<rparr>) = client_ok s"
  by (simp_all add: client_ok_def)

lemma client_ok_handle_ltp [simp]: "client_ok (handle_ltp en data s) = client_ok s"
  by (simp add: handle_ltp_def Let_def notify_events split: option.splits)

lemma client_ok_handle_quote [simp]: "client_ok (handle_quote en data s) = client_ok s"
  by (simp add: handle_quote_def Let_def notify_events split: option.splits)

lemma client_ok_handle_depth [simp]: "client_ok (handle_depth en data s) = client_ok s"
  by (simp add: handle_depth_def Let_def notify_events split: option.splits)

lemma client_ok_process_message [simp]: "client_ok (process_message en data s) = client_ok s"
  by (simp add: process_message_def Let_def)

lemma split_on_not_Nil [simp]: "split_on c xs \<noteq> []"
  by (induction xs) (simp_all split: list.splits)

lemma resubscribe_keys_events:
  "fst (resubscribe_keys en k keys s) = s\<lparr>events := events (fst (resubscribe_keys en k keys s))\<rparr>"
proof (induction keys arbitrary: s)
  case Nil
  then show ?case by simp
next
  case (Cons key keys)
  show ?case
  proof (cases "\<exists>e sy. split_on CHR '':'' key = [e, sy]")
    case True
    then obtain e sy where p: "split_on CHR '':'' key = [e, sy]" by blast
    have "fst (resubscribe_keys en k (key # keys) s)
        = fst (resubscribe_keys en k keys (fst (send_subscribe en k e sy s)))"
      by (simp add: p)
    also have "\<dots> = (fst (send_subscribe en k e sy s))\<lparr>events := events (fst (resubscribe_keys en k keys (fst (send_subscribe en k e sy s))))\<rparr>"
      by (rule Cons.IH)
    also have "\<dots> = s\<lparr>events := events (fst (resubscribe_keys en k keys (fst (send_subscribe en k e sy s))))\<rparr>"
      by (subst send_subscribe_events) simp
    finally show ?thesis by (simp add: p)
  next
    case False
    then have "resubscribe_keys en k (key # keys) s = (s, Exc ValueError)"
      by (auto split: list.splits)
    then show ?thesis by simp
  qed
qed

lemma resubscribe_kinds_events:
  "fst (resubscribe_kinds en ks s) = s\<lparr>events := events (fst (resubscribe_kinds en ks s))\<rparr>"
proof (induction ks arbitrary: s)
  case Nil
  then show ?case by simp
next
  case (Cons k ks)
  obtain s1 r where a: "resubscribe_keys en k (map fst (subscriptions k s)) s = (s1, r)"
    by (cases "resubscribe_keys en k (map fst (subscriptions k s)) s")
  have s1: "s1 = s\<lparr>events := events s1\<rparr>"
    using resubscribe_keys_events [of en k "map fst (subscriptions k s)" s] by (simp add: a)
  show ?case
  proof (cases r)
    case (Ret u)
    have "fst (resubscribe_kinds en (k # ks) s) = fst (resubscribe_kinds en ks s1)"
      by (simp add: a Ret)
    also have "\<dots> = s1\<lparr>events := events (fst (resubscribe_kinds en ks s1))\<rparr>"
      by (rule Cons.IH)
    also have "\<dots> = s\<lparr>events := events (fst (resubscribe_kinds en ks s1))\<rparr>"
      by (subst s1) simp
    finally show ?thesis by (simp add: a Ret)
  next
    case (Exc e)
    then show ?thesis using s1 by (simp add: a)
  qed
qed

lemma resubscribe_all_events:
  "fst (resubscribe_all en s) = s\<lparr>events := events (fst (resubscribe_all en s))\<rparr>"
  unfolding resubscribe_all_def by (rule resubscribe_kinds_events)

lemma client_ok_resubscribe_all [simp]: "client_ok (fst (resubscribe_all en s)) = client_ok s"
  by (subst resubscribe_all_events) (simp only: client_ok_events)

lemma try_reconnect_stop:
  "\<not> (reconnect_attempts s < max_reconnect_attempts \<and> running s) \<Longrightarrow>
     try_reconnect en s = (s, Ret ())"
  by (subst try_reconnect.simps) (simp only: if_False)

lemma try_reconnect_step:
  "reconnect_attempts s < max_reconnect_attempts \<and> running s \<Longrightarrow>
     try_reconnect en s =
       (let s1 = emit (Slept reconnect_delay) (s\<lparr>reconnect_attempts := reconnect_attempts s + 1\<rparr>)
        in if snd (connect en s1) then resubscribe_all en (fst (connect en s1))
           else try_reconnect en (fst (connect en s1)))"
  by (subst try_reconnect.simps) (simp only: if_True simp_thms)

lemma client_ok_try_reconnect:
  "client_ok s \<Longrightarrow> \<not> message_task s \<Longrightarrow> client_ok (fst (try_reconnect en s))"
proof (induction en s rule: try_reconnect.induct)
  case (1 en s)
  show ?case
  proof (cases "reconnect_attempts s < max_reconnect_attempts \<and> running s")
    case False
    then show ?thesis using "1.prems" by (simp add: try_reconnect_stop)
  next
    case True
    define s1 where "s1 = emit (Slept reconnect_delay) (s\<lparr>reconnect_attempts := reconnect_attempts s + 1\<rparr>)"
    have ok1: "client_ok s1" and mt1: "\<not> message_task s1"
      using "1.prems" by (simp_all add: s1_def emit_def client_ok_def)
    show ?thesis
    proof (cases "snd (connect en s1)")
      case c: True
      have "fst (try_reconnect en s) = fst (resubscribe_all en (fst (connect en s1)))"
        using c by (simp add: try_reconnect_step [OF True] s1_def Let_def)
      then show ?thesis using client_ok_connect [OF ok1] by simp
    next
      case c: False
      have e: "fst (try_reconnect en s) = fst (try_reconnect en (fst (connect en s1)))"
        using c by (simp add: try_reconnect_step [OF True] s1_def Let_def)
      have "\<not> message_task (fst (connect en s1))"
        using c mt1 by (simp add: connect_def emit_def split: if_splits)
      then show ?thesis
        unfolding e using "1.IH" [OF True s1_def c client_ok_connect [OF ok1]] by simp
    qed
  qed
qed

lemma client_ok_message_handler:
  "client_ok s \<Longrightarrow> client_ok (fst (message_handler en r s))"
proof -
  assume a: "client_ok s"
  have "client_ok (s\<lparr>connected := False, message_task := False\<rparr>)"
    using a by (simp add: client_ok_def)
  then have "client_ok (fst (try_reconnect en (s\<lparr>connected := False, message_task := False\<rparr>)))"
    by (rule client_ok_try_reconnect) simp
  moreover have "client_ok (s\<lparr>message_task := False\<rparr>)" using a by (simp add: client_ok_def)
  ultimately show ?thesis
    using a by (simp add: message_handler_def split: received.splits)
qed

lemma client_ok_apply_op: "client_ok s \<Longrightarrow> client_ok (apply_op en x s)"
  by (cases x)
     (simp_all add: client_ok_connect client_ok_disconnect client_ok_subscribe
        client_ok_unsubscribe client_ok_message_handler)

lemma client_ok_run: "client_ok s \<Longrightarrow> client_ok (run en xs s)"
  by (induction xs arbitrary: s) (simp_all add: client_ok_apply_op)

lemma count_list_distinct: "distinct xs \<Longrightarrow> x \<in> set xs \<Longrightarrow> count_list xs x = 1"
  by (induction xs) auto

lemma drop_key_effect:
  "connected s \<longrightarrow> ws s \<Longrightarrow>
   map_of (subscriptions k (drop_key en k e sy s)) (get_symbol_key e sy) = None \<and>
   (\<forall>k'. k' \<noteq> k \<longrightarrow> subscriptions k' (drop_key en k e sy s) = subscriptions k' s) \<and>
   events (drop_key en k e sy s) =
     events s @ (if connected s then [Sent Unsubscribe k e sy (tx en (events s))] else [])"
  by (auto simp add: drop_key_def Let_def delete_conv' send_unsubscribe_def emit_def)

lemma dict_get_Some [simp]: "map_of data name = Some v \<Longrightarrow> dict_get data name d = v"
  by (simp add: dict_get_def)

lemma py_str_JStr [simp]: "py_str en (JStr x) = x"
  by (simp add: py_str_def)

lemma handle_ltp_eq:
  "handle_ltp en data s =
     (let exchange = dict_get data ''exchange'' (JStr '''');
          symbol = dict_get data ''symbol'' (JStr '''');
          ltp = dict_get data ''ltp'' (JNum 0);
          key = get_symbol_key (py_str en exchange) (py_str en symbol);
          args = LtpArgs exchange symbol ltp data
      in s\<lparr>ltp_cache := (ltp_cache s)(key \<mapsto> ltp),
            events := events s @ map (\<lambda>c. Invoked c args (cb_raises en c args)) (callbacks_of LTP key s)\<rparr>)"
  by (simp add: handle_ltp_def Let_def notify_events callbacks_of_def split: option.splits)

lemma handle_quote_eq:
  "handle_quote en data s =
     (let exchange = dict_get data ''exchange'' (JStr '''');
          symbol = dict_get data ''symbol'' (JStr '''');
          key = get_symbol_key (py_str en exchange) (py_str en symbol);
          args = DataArgs exchange symbol data
      in s\<lparr>quote_cache := (quote_cache s)(key \<mapsto> data),
            ltp_cache := (case map_of data ''ltp'' of None \<Rightarrow> ltp_cache s
                          | Some v \<Rightarrow> (ltp_cache s)(key \<mapsto> v)),
            events := events s @ map (\<lambda>c. Invoked c args (cb_raises en c args)) (callbacks_of QUOTE key s)\<rparr>)"
  by (simp add: handle_quote_def Let_def notify_events callbacks_of_def split: option.splits)

lemma handle_depth_eq:
  "handle_depth en data s =
     (let exchange = dict_get data ''exchange'' (JStr '''');
          symbol = dict_get data ''symbol'' (JStr '''');
          key = get_symbol_key (py_str en exchange) (py_str en symbol);
          args = DataArgs exchange symbol data
      in s\<lparr>depth_cache := (depth_cache s)(key \<mapsto> data),
            events := events s @ map (\<lambda>c. Invoked c args (cb_raises en c args)) (callbacks_of DEPTH key s)\<rparr>)"
  by (simp add: handle_depth_def Let_def notify_events callbacks_of_def split: option.splits)

lemma process_message_events:
  assumes "map_of data ''type'' = Some (JStr (kind_str k))"
  shows "events (process_message en data s) =
           events s @ map (\<lambda>c. Invoked c (frame_args k data) (cb_raises en c (frame_args k data)))
                          (callbacks_of k (frame_key en data) s)"
  using assms
  by (cases k)
     (simp_all add: process_message_def handle_ltp_eq handle_quote_eq handle_depth_eq Let_def
        frame_key_def)

lemma process_message_loop [simp]:
  "message_task (process_message en data s) = message_task s"
  "running (process_message en data s) = running s"
  "ws (process_message en data s) = ws s"
  "connected (process_message en data s) = connected s"
  "subscriptions k (process_message en data s) = subscriptions k s"
  by (cases k; simp add: process_message_def handle_ltp_eq handle_quote_eq handle_depth_eq Let_def)+

lemma try_reconnect_exhausts:
  assumes "\<forall>es. \<not> net en (events s @ es)" and "running s" and "\<not> connected s"
    and "n = max_reconnect_attempts - reconnect_attempts s"
    and "reconnect_attempts s \<le> max_reconnect_attempts"
  shows "try_reconnect en s =
     (s\<lparr>reconnect_attempts := max_reconnect_attempts,
        events := events s @ concat (replicate n [Slept reconnect_delay, Opened False])\<rparr>, Ret ())"
  using assms
proof (induction n arbitrary: s)
  case 0
  then have a: "reconnect_attempts s = max_reconnect_attempts" by simp
  then have "try_reconnect en s = (s, Ret ())" by (simp add: try_reconnect_stop)
  then show ?case using a by simp
next
  case (Suc n)
  then have lt: "reconnect_attempts s < max_reconnect_attempts \<and> running s" by simp
  define s1 where "s1 = emit (Slept reconnect_delay) (s\<lparr>reconnect_attempts := reconnect_attempts s + 1\<rparr>)"
  have "\<not> net en (events s @ [Slept reconnect_delay])" using Suc.prems(1) by blast
  then have c: "connect en s1 = ((emit (Opened False) s1)\<lparr>connected := False\<rparr>, False)"
    using Suc.prems(3) by (simp add: connect_def s1_def emit_def)
  define s2 where "s2 = (emit (Opened False) s1)\<lparr>connected := False\<rparr>"
  have ev2: "events s2 = events s @ [Slept reconnect_delay, Opened False]"
    by (simp add: s2_def s1_def emit_def)
  have st: "try_reconnect en s = try_reconnect en s2"
    unfolding try_reconnect_step [OF lt] Let_def s1_def [symmetric] c s2_def by simp
  have "\<forall>es. \<not> net en (events s2 @ es)"
    using Suc.prems(1) by (simp add: ev2)
  moreover have "running s2" "\<not> connected s2" using Suc.prems(2) by (simp_all add: s2_def s1_def emit_def)
  moreover have "n = max_reconnect_attempts - reconnect_attempts s2"
     "reconnect_attempts s2 \<le> max_reconnect_attempts"
    using Suc.prems(4) lt by (simp_all add: s2_def s1_def emit_def)
  ultimately have "try_reconnect en s2 =
     (s2\<lparr>reconnect_attempts := max_reconnect_attempts,
        events := events s2 @ concat (replicate n [Slept reconnect_delay, Opened False])\<rparr>, Ret ())"
    by (rule Suc.IH)
  then show ?case
    using Suc.prems(3) by (simp add: st ev2) (simp add: s2_def s1_def emit_def)
qed

lemma split_on_no_sep: "c \<notin> set xs \<Longrightarrow> split_on c xs = [xs]"
  by (induction xs) auto

lemma split_on_append: "c \<notin> set xs \<Longrightarrow> split_on c (xs @ c # ys) = xs # split_on c ys"
  by (induction xs) auto

lemma length_split_on: "length (split_on c xs) = Suc (count_list xs c)"
  by (induction xs) (auto split: list.splits)

lemma key_splits_back:
  "split_on CHR '':'' (get_symbol_key e sy) = [e, sy] \<longleftrightarrow> CHR '':'' \<notin> set e \<and> CHR '':'' \<notin> set sy"
proof
  assume a: "split_on CHR '':'' (get_symbol_key e sy) = [e, sy]"
  have "length (split_on CHR '':'' (get_symbol_key e sy)) = 2" by (simp add: a)
  then have "count_list e CHR '':'' + count_list sy CHR '':'' = 0"
    by (simp add: length_split_on get_symbol_key_def)
  then show "CHR '':'' \<notin> set e \<and> CHR '':'' \<notin> set sy"
    by (simp add: count_list_0_iff)
next
  assume "CHR '':'' \<notin> set e \<and> CHR '':'' \<notin> set sy"
  then show "split_on CHR '':'' (get_symbol_key e sy) = [e, sy]"
    by (simp add: get_symbol_key_def split_on_append split_on_no_sep)
qed

lemma resubscribe_keys_colon:
  assumes "CHR '':'' \<in> set e \<or> CHR '':'' \<in> set sy"
  shows "resubscribe_keys en k (get_symbol_key e sy # keys) s = (s, Exc ValueError)"
proof -
  have "length (split_on CHR '':'' (get_symbol_key e sy)) = Suc (Suc (count_list e CHR '':'' + count_list sy CHR '':''))"
    by (simp add: length_split_on get_symbol_key_def)
  moreover have "count_list e CHR '':'' + count_list sy CHR '':'' \<noteq> 0"
    using assms by (auto simp: count_list_0_iff)
  ultimately have "length (split_on CHR '':'' (get_symbol_key e sy)) \<noteq> 2" by simp
  then show ?thesis
    by (auto split: list.splits)
qed

lemma requests_append [simp]: "requests (xs @ ys) = requests xs @ requests ys"
  by (induction xs rule: requests.induct) simp_all

lemma two_parts_split: "two_parts key \<Longrightarrow> \<exists>e sy. split_on CHR '':'' key = [e, sy]"
  unfolding two_parts_def by (auto simp: length_Suc_conv numeral_2_eq_2)

lemma send_subscribe_requests:
  "connected s \<Longrightarrow> ws s \<Longrightarrow>
   requests (events (fst (send_subscribe en k e sy s))) = requests (events s) @ [(Subscribe, k, e, sy)]"
  by (simp add: send_subscribe_def emit_def)

lemma resubscribe_keys_requests:
  assumes "connected s" and "ws s" and "list_all two_parts keys"
  shows "snd (resubscribe_keys en k keys s) = Ret () \<and>
         requests (events (fst (resubscribe_keys en k keys s))) =
           requests (events s) @ map (key_request k) keys"
  using assms
proof (induction keys arbitrary: s)
  case Nil
  then show ?case by simp
next
  case (Cons key keys)
  have "two_parts key" using Cons.prems(3) by simp
  then obtain e sy where p: "split_on CHR '':'' key = [e, sy]"
    using two_parts_split by blast
  define s1 where "s1 = fst (send_subscribe en k e sy s)"
  have c1: "connected s1" "ws s1" using Cons.prems(1,2) by (simp_all add: s1_def)
  have r1: "requests (events s1) = requests (events s) @ [(Subscribe, k, e, sy)]"
    unfolding s1_def by (rule send_subscribe_requests [OF Cons.prems(1,2)])
  have "list_all two_parts keys" using Cons.prems(3) by simp
  from Cons.IH [OF c1 this]
  have "snd (resubscribe_keys en k keys s1) = Ret () \<and>
        requests (events (fst (resubscribe_keys en k keys s1))) =
          requests (events s1) @ map (key_request k) keys" .
  then show ?case
    by (simp add: p s1_def [symmetric] r1 key_request_def)
qed

lemma resubscribe_keys_connected:
  "connected (fst (resubscribe_keys en k keys s)) = connected s"
  by (subst resubscribe_keys_events) simp

lemma resubscribe_keys_ws:
  "ws (fst (resubscribe_keys en k keys s)) = ws s"
  by (subst resubscribe_keys_events) simp

lemma resubscribe_keys_subscriptions:
  "subscriptions k' (fst (resubscribe_keys en k keys s)) = subscriptions k' s"
  by (subst resubscribe_keys_events) (simp only: subscriptions_events)

lemmas resubscribe_keys_state =
  resubscribe_keys_connected resubscribe_keys_ws resubscribe_keys_subscriptions

lemma resubscribe_all_requests:
  assumes "connected s" and "ws s"
    and "\<forall>k. list_all two_parts (map fst (subscriptions k s))"
  shows "snd (resubscribe_all en s) = Ret () \<and>
         requests (events (fst (resubscribe_all en s))) =
           requests (events s)
           @ map (key_request LTP) (map fst (subscriptions LTP s))
           @ map (key_request QUOTE) (map fst (subscriptions QUOTE s))
           @ map (key_request DEPTH) (map fst (subscriptions DEPTH s))"
proof -
  define s1 where "s1 = fst (resubscribe_keys en LTP (map fst (subscriptions LTP s)) s)"
  define s2 where "s2 = fst (resubscribe_keys en QUOTE (map fst (subscriptions QUOTE s1)) s1)"
  define s3 where "s3 = fst (resubscribe_keys en DEPTH (map fst (subscriptions DEPTH s2)) s2)"
  have st1: "connected s1" "ws s1" "\<And>k. subscriptions k s1 = subscriptions k s"
    using assms(1,2) by (simp_all only: s1_def resubscribe_keys_state)
  have st2: "connected s2" "ws s2" "\<And>k. subscriptions k s2 = subscriptions k s"
    using st1 by (simp_all only: s2_def resubscribe_keys_state)
  have a1: "snd (resubscribe_keys en LTP (map fst (subscriptions LTP s)) s) = Ret () \<and>
      requests (events s1) = requests (events s) @ map (key_request LTP) (map fst (subscriptions LTP s))"
    unfolding s1_def by (rule resubscribe_keys_requests [OF assms(1,2)]) (rule assms(3) [rule_format])
  have a2: "snd (resubscribe_keys en QUOTE (map fst (subscriptions QUOTE s1)) s1) = Ret () \<and>
      requests (events s2) = requests (events s1) @ map (key_request QUOTE) (map fst (subscriptions QUOTE s1))"
    unfolding s2_def
    by (rule resubscribe_keys_requests [OF st1(1,2)]) (simp only: st1(3) assms(3) [rule_format])
  have a3: "snd (resubscribe_keys en DEPTH (map fst (subscriptions DEPTH s2)) s2) = Ret () \<and>
      requests (events s3) = requests (events s2) @ map (key_request DEPTH) (map fst (subscriptions DEPTH s2))"
    unfolding s3_def
    by (rule resubscribe_keys_requests [OF st2(1,2)]) (simp only: st2(3) assms(3) [rule_format])
  have e1: "resubscribe_keys en LTP (map fst (subscriptions LTP s)) s = (s1, Ret ())"
    using a1 by (simp add: s1_def prod_eq_iff)
  have e2: "resubscribe_keys en QUOTE (map fst (subscriptions QUOTE s1)) s1 = (s2, Ret ())"
    using a2 by (simp add: s2_def prod_eq_iff)
  have e3: "resubscribe_keys en DEPTH (map fst (subscriptions DEPTH s2)) s2 = (s3, Ret ())"
    using a3 by (simp add: s3_def prod_eq_iff)
  have "resubscribe_all en s = (s3, Ret ())"
    by (simp only: resubscribe_all_def resubscribe_kinds.simps e1 e2 e3 prod.case outcome.case)
  then show ?thesis
    using a1 a2 a3 st1(3) st2(3) by simp
qed

lemma reconnect_resubscribes:
  assumes "message_task s" and "running s" and "ws s"
    and "reconnect_attempts s < max_reconnect_attempts"
    and "net en (events s @ [Slept reconnect_delay])"
    and "\<forall>k. list_all two_parts (map fst (subscriptions k s))"
  shows "snd (message_handler en ConnectionClosed s) = Ret () \<and>
         requests (events (fst (message_handler en ConnectionClosed s))) =
           requests (events s)
           @ map (key_request LTP) (map fst (subscriptions LTP s))
           @ map (key_request QUOTE) (map fst (subscriptions QUOTE s))
           @ map (key_request DEPTH) (map fst (subscriptions DEPTH s))"
proof -
  define s0 where "s0 = s\<lparr>connected := False, message_task := False\<rparr>"
  define s1 where "s1 = emit (Slept reconnect_delay) (s0\<lparr>reconnect_attempts := reconnect_attempts s0 + 1\<rparr>)"
  define s2 where "s2 = fst (connect en s1)"
  have lt: "reconnect_attempts s0 < max_reconnect_attempts \<and> running s0"
    using assms(2,4) by (simp add: s0_def)
  have c: "snd (connect en s1)" "connected s2" "ws s2"
    "events s2 = events s @ [Slept reconnect_delay, Opened True]"
    using assms(5) by (simp_all add: s2_def s1_def s0_def connect_def emit_def)
  have sub: "\<And>k. subscriptions k s2 = subscriptions k s"
  proof -
    fix k show "subscriptions k s2 = subscriptions k s"
      using assms(5) by (cases k) (simp_all add: s2_def s1_def s0_def connect_def emit_def)
  qed
  have tr: "try_reconnect en s0 = resubscribe_all en s2"
    unfolding try_reconnect_step [OF lt] Let_def s1_def [symmetric] s2_def [symmetric]
    using c(1) by simp
  have mh: "message_handler en ConnectionClosed s = resubscribe_all en s2"
    using assms(1-3) by (simp add: message_handler_def s0_def [symmetric] tr)
  have "\<forall>k. list_all two_parts (map fst (subscriptions k s2))"
    using assms(6) by (simp add: sub)
  from resubscribe_all_requests [OF c(2,3) this, of en]
  show ?thesis
    by (simp only: mh sub c(4) requests_append requests.simps append_Nil2 append_Nil simp_thms)
qed

section \<open>The claims\<close>

text \<open>
  C1. After a connection loss and a reconnect that succeeds, one request to subscribe is to
  be sent again for every key held, whatever the exchange and the symbol. The client here
  is connected and holds the keys \<open>NSE:A:B\<close> (exchange \<open>NSE\<close>, symbol \<open>A:B\<close>) and \<open>NSE:INFY\<close>
  when its read loop sees the transport close. The first reconnect succeeds, the key
  \<open>NSE:A:B\<close> splits into three parts, \<^verbatim>\<open>_resubscribe_all\<close> raises \<^verbatim>\<open>ValueError\<close>, and no request
  is sent again, neither for this key nor for \<open>NSE:INFY\<close> after it. By
  \<open>key_splits_back\<close> and \<open>resubscribe_keys_colon\<close> this is so for every key whose exchange or
  symbol holds a colon; by \<open>reconnect_resubscribes\<close>, when every key held splits into two
  parts the reconnect that succeeds sends one request for each key of each type, in order.
\<close>

theorem resubscribe_all_colon_symbol:
  "map fst (subscriptions LTP (run env_up colon_run init)) = [''NSE:A:B'', ''NSE:INFY''] \<and>
   events (run env_up colon_run init) =
     [Opened True, Sent Subscribe LTP ''NSE'' ''A:B'' True, Sent Subscribe LTP ''NSE'' ''INFY'' True] \<and>
   snd (message_handler env_up ConnectionClosed (run env_up colon_run init)) = Exc ValueError \<and>
   events (fst (message_handler env_up ConnectionClosed (run env_up colon_run init))) =
     events (run env_up colon_run init) @ [Slept 5, Opened True]"
  by code_simp

text \<open>
  C2. In a state that a run of the client reaches with its read loop alive, when the loop
  sees the transport close and no connect succeeds from then on, the reconnection makes
  exactly five connect attempts, each after a sleep of five time units, and returns
  without an exception; the client is then not connected, its counter stands at five and no
  read loop is left, so that a further round of the loop does nothing. On a client that is
  not meant to run the reconnection makes no attempt at all.
\<close>

theorem reconnect_gives_up:
  assumes "s = run en ops init" and "message_task s"
    and "\<forall>es. \<not> net en (events s @ es)"
    and "s' = s\<lparr>connected := False, message_task := False, reconnect_attempts := 5,
               events := events s @ [Slept 5, Opened False, Slept 5, Opened False,
                 Slept 5, Opened False, Slept 5, Opened False, Slept 5, Opened False]\<rparr>"
  shows "message_handler en ConnectionClosed s = (s', Ret ()) \<and>
         running s \<and> running s' \<and>
         message_handler en r s' = (s', Ret ()) \<and>
         (\<forall>s0. \<not> running s0 \<longrightarrow> try_reconnect en s0 = (s0, Ret ()))"
proof -
  have ok: "client_ok s" unfolding assms(1) by (rule client_ok_run [OF client_ok_init])
  with assms(2) have m: "running s" "ws s" "reconnect_attempts s = 0"
    by (simp_all add: client_ok_def)
  define s0 where "s0 = s\<lparr>connected := False, message_task := False\<rparr>"
  have "try_reconnect en s0 =
     (s0\<lparr>reconnect_attempts := max_reconnect_attempts,
        events := events s0 @ concat (replicate 5 [Slept reconnect_delay, Opened False])\<rparr>, Ret ())"
    by (rule try_reconnect_exhausts)
       (use assms(3) m in \<open>simp_all add: s0_def max_reconnect_attempts_def\<close>)
  then have "try_reconnect en s0 = (s', Ret ())"
    by (simp add: s0_def assms(4) max_reconnect_attempts_def reconnect_delay_def
        numeral_eq_Suc)
  then have a: "message_handler en ConnectionClosed s = (s', Ret ())"
    using assms(2) m by (simp add: message_handler_def s0_def)
  have b: "message_handler en r s' = (s', Ret ())"
    by (simp add: message_handler_def assms(4))
  have c: "\<forall>s0. \<not> running s0 \<longrightarrow> try_reconnect en s0 = (s0, Ret ())"
    by (simp add: try_reconnect_stop)
  show ?thesis using a b c m by (simp add: assms(4))
qed

theorem reconnect_gives_up_witness:
  "message_task (run env_once [OpConnect] init) \<and>
   (\<forall>es. \<not> net env_once (events (run env_once [OpConnect] init) @ es)) \<and>
   snd (message_handler env_once ConnectionClosed (run env_once [OpConnect] init)) = Ret () \<and>
   events (fst (message_handler env_once ConnectionClosed (run env_once [OpConnect] init))) =
     [Opened True, Slept 5, Opened False, Slept 5, Opened False, Slept 5, Opened False,
      Slept 5, Opened False, Slept 5, Opened False] \<and>
   \<not> message_task (fst (message_handler env_once ConnectionClosed (run env_once [OpConnect] init))) \<and>
   \<not> connected (fst (message_handler env_once ConnectionClosed (run env_once [OpConnect] init)))"
proof -
  define s where "s = run env_once [OpConnect] init"
  have e: "events s = [Opened True]" unfolding s_def by code_simp
  have h2: "message_task s" unfolding s_def by code_simp
  have h3: "\<forall>es. \<not> net env_once (events s @ es)" by (simp add: e env_once_def)
  note t = reconnect_gives_up [OF s_def h2 h3 refl]
  have "message_task s \<and>
   (\<forall>es. \<not> net env_once (events s @ es)) \<and>
   snd (message_handler env_once ConnectionClosed s) = Ret () \<and>
   events (fst (message_handler env_once ConnectionClosed s)) =
     [Opened True, Slept 5, Opened False, Slept 5, Opened False, Slept 5, Opened False,
      Slept 5, Opened False, Slept 5, Opened False] \<and>
   \<not> message_task (fst (message_handler env_once ConnectionClosed s)) \<and>
   \<not> connected (fst (message_handler env_once ConnectionClosed s))"
    using t h2 h3 by (simp add: e)
  then show ?thesis unfolding s_def .
qed

text \<open>
  C3. In every state that a run of the client reaches, and for every subscription type,
  exchange, symbol and callback: subscribing the callback twice leaves it registered exactly
  once under the key of the exchange and symbol, the second call changes nothing in the
  client, and both calls return \<^verbatim>\<open>True\<close>, as a call of subscribe does in any state.
\<close>

theorem subscribe_idempotent:
  "let s = run en ops init;
       s1 = fst (subscribe en k e sy c s);
       s2 = fst (subscribe en k e sy c s1)
   in snd (subscribe en k e sy c s) = Ret True \<and> snd (subscribe en k e sy c s1) = Ret True \<and>
      s2 = s1 \<and> count_list (callbacks_of k (get_symbol_key e sy) s2) c = 1 \<and>
      (\<forall>s0. snd (subscribe en k e sy c s0) = Ret True)"
proof -
  define s where "s = run en ops init"
  define s1 where "s1 = fst (subscribe en k e sy c s)"
  define s2 where "s2 = fst (subscribe en k e sy c s1)"
  have ok: "client_ok s" unfolding s_def by (rule client_ok_run [OF client_ok_init])
  have r: "registry_ok (subscriptions k s)" by (rule client_ok_registry [OF ok])
  let ?key = "get_symbol_key e sy"
  have in1: "c \<in> set (callbacks_of k ?key s1) \<and> distinct (callbacks_of k ?key s1) \<and>
             map_of (subscriptions k s1) ?key = Some (callbacks_of k ?key s1)"
  proof (cases "map_of (subscriptions k s) ?key")
    case None
    then show ?thesis
      by (simp add: s1_def subscribe_new callbacks_of_def update_conv')
  next
    case (Some cbs)
    with r have "distinct cbs" by (simp add: registry_ok_iff)
    then show ?thesis
      using Some by (simp add: s1_def subscribe_old callbacks_of_def update_conv')
  qed
  then have e2: "subscribe en k e sy c s1 = (s1, Ret True)"
    by (simp add: subscribe_old [of k s1 e sy "callbacks_of k ?key s1"])
  then have "s2 = s1" by (simp add: s2_def)
  moreover have "count_list (callbacks_of k ?key s1) c = 1"
    using in1 by (simp add: count_list_distinct)
  ultimately show ?thesis
    unfolding Let_def s_def [symmetric] s1_def [symmetric] s2_def [symmetric]
    by (simp add: subscribe_returns)
qed

theorem subscribe_idempotent_witness:
  "snd (subscribe env_up LTP ''NSE'' ''INFY'' 7 (run env_up [OpConnect] init)) = Ret True \<and>
   subscriptions LTP (fst (subscribe env_up LTP ''NSE'' ''INFY'' 7 (run env_up [OpConnect] init)))
     = [(''NSE:INFY'', [7])] \<and>
   fst (subscribe env_up LTP ''NSE'' ''INFY'' 7
         (fst (subscribe env_up LTP ''NSE'' ''INFY'' 7 (run env_up [OpConnect] init))))
     = fst (subscribe env_up LTP ''NSE'' ''INFY'' 7 (run env_up [OpConnect] init)) \<and>
   events (fst (subscribe env_up LTP ''NSE'' ''INFY'' 7
         (fst (subscribe env_up LTP ''NSE'' ''INFY'' 7 (run env_up [OpConnect] init)))))
     = [Opened True, Sent Subscribe LTP ''NSE'' ''INFY'' True] \<and>
   count_list (callbacks_of LTP ''NSE:INFY''
      (fst (subscribe env_up LTP ''NSE'' ''INFY'' 7
         (fst (subscribe env_up LTP ''NSE'' ''INFY'' 7 (run env_up [OpConnect] init)))))) 7 = 1"
proof -
  define s where "s = run env_up [OpConnect] init"
  define s1 where "s1 = fst (subscribe env_up LTP ''NSE'' ''INFY'' 7 s)"
  have k: "get_symbol_key ''NSE'' ''INFY'' = ''NSE:INFY''" by (simp add: get_symbol_key_def)
  have r: "subscriptions LTP s1 = [(''NSE:INFY'', [7])]"
    unfolding s1_def s_def by code_simp
  have e: "events s1 = [Opened True, Sent Subscribe LTP ''NSE'' ''INFY'' True]"
    unfolding s1_def s_def by code_simp
  note t = subscribe_idempotent [where en = env_up and ops = "[OpConnect]" and k = LTP
      and e = "''NSE''" and sy = "''INFY''" and c = 7,
      unfolded Let_def s_def [symmetric] s1_def [symmetric] k]
  have "snd (subscribe env_up LTP ''NSE'' ''INFY'' 7 s) = Ret True \<and>
    subscriptions LTP s1 = [(''NSE:INFY'', [7])] \<and>
    fst (subscribe env_up LTP ''NSE'' ''INFY'' 7 s1) = s1 \<and>
    events (fst (subscribe env_up LTP ''NSE'' ''INFY'' 7 s1))
      = [Opened True, Sent Subscribe LTP ''NSE'' ''INFY'' True] \<and>
    count_list (callbacks_of LTP ''NSE:INFY'' (fst (subscribe env_up LTP ''NSE'' ''INFY'' 7 s1))) 7 = 1"
    using t r e by (auto simp: callbacks_of_def)
  then show ?thesis unfolding s1_def s_def .
qed

text \<open>
  C4. In every state that a run of the client reaches, for a key with at least one callback
  registered under a subscription type: unsubscribing with no callback returns \<^verbatim>\<open>True\<close>,
  leaves the key with no callback and out of the keys of that type, leaves the other types
  as they were, and adds to the events exactly one send of the request to unsubscribe when
  the client is connected, and nothing when it is not. Unsubscribing a key that the type
  does not hold returns \<^verbatim>\<open>True\<close> and leaves the client as it was.
\<close>

theorem unsubscribe_all_callbacks:
  "let s = run en ops init;
       key = get_symbol_key e sy;
       s' = fst (unsubscribe en k e sy None s)
   in (callbacks_of k key s \<noteq> [] \<longrightarrow>
         snd (unsubscribe en k e sy None s) = Ret True \<and>
         callbacks_of k key s' = [] \<and>
         key \<notin> set (map fst (subscriptions k s')) \<and>
         (\<forall>k'. k' \<noteq> k \<longrightarrow> subscriptions k' s' = subscriptions k' s) \<and>
         events s' =
           events s @ (if connected s then [Sent Unsubscribe k e sy (tx en (events s))] else [])) \<and>
      (key \<notin> set (map fst (subscriptions k s)) \<longrightarrow>
         unsubscribe en k e sy cb s = (s, Ret True))"
proof -
  define s where "s = run en ops init"
  define key where "key = get_symbol_key e sy"
  have ok: "client_ok s" unfolding s_def by (rule client_ok_run [OF client_ok_init])
  then have cw: "connected s \<longrightarrow> ws s" by (simp add: client_ok_def)
  have a: "unsubscribe en k e sy cb s = (s, Ret True)" if "key \<notin> set (map fst (subscriptions k s))"
  proof -
    from that have "map_of (subscriptions k s) (get_symbol_key e sy) = None"
      by (simp add: key_def map_of_eq_None_iff)
    then show ?thesis by (rule unsubscribe_absent)
  qed
  have b: "snd (unsubscribe en k e sy None s) = Ret True \<and>
         callbacks_of k key (fst (unsubscribe en k e sy None s)) = [] \<and>
         key \<notin> set (map fst (subscriptions k (fst (unsubscribe en k e sy None s)))) \<and>
         (\<forall>k'. k' \<noteq> k \<longrightarrow> subscriptions k' (fst (unsubscribe en k e sy None s)) = subscriptions k' s) \<and>
         events (fst (unsubscribe en k e sy None s)) =
           events s @ (if connected s then [Sent Unsubscribe k e sy (tx en (events s))] else [])"
    if "callbacks_of k key s \<noteq> []"
  proof -
    from that obtain cbs where c: "map_of (subscriptions k s) (get_symbol_key e sy) = Some cbs"
      by (auto simp: callbacks_of_def key_def split: option.splits)
    have u: "unsubscribe en k e sy None s = (drop_key en k e sy s, Ret True)"
      by (rule unsubscribe_all [OF c])
    have n: "map_of (subscriptions k (drop_key en k e sy s)) key = None"
      using drop_key_effect [OF cw, of k en e sy] by (simp add: key_def)
    then have "key \<notin> set (map fst (subscriptions k (drop_key en k e sy s)))"
      by (simp add: map_of_eq_None_iff)
    then show ?thesis
      using drop_key_effect [OF cw, of k en e sy] n by (simp add: u callbacks_of_def)
  qed
  show ?thesis
    unfolding Let_def s_def [symmetric] key_def [symmetric] using a b by blast
qed

theorem unsubscribe_all_callbacks_witness:
  "callbacks_of DEPTH ''NSE:INFY''
     (run env_up [OpConnect, OpSubscribe DEPTH ''NSE'' ''INFY'' 1, OpSubscribe DEPTH ''NSE'' ''INFY'' 2] init)
     = [1, 2] \<and>
   snd (unsubscribe env_up DEPTH ''NSE'' ''INFY'' None
     (run env_up [OpConnect, OpSubscribe DEPTH ''NSE'' ''INFY'' 1, OpSubscribe DEPTH ''NSE'' ''INFY'' 2] init))
     = Ret True \<and>
   subscriptions DEPTH (fst (unsubscribe env_up DEPTH ''NSE'' ''INFY'' None
     (run env_up [OpConnect, OpSubscribe DEPTH ''NSE'' ''INFY'' 1, OpSubscribe DEPTH ''NSE'' ''INFY'' 2] init)))
     = [] \<and>
   events (fst (unsubscribe env_up DEPTH ''NSE'' ''INFY'' None
     (run env_up [OpConnect, OpSubscribe DEPTH ''NSE'' ''INFY'' 1, OpSubscribe DEPTH ''NSE'' ''INFY'' 2] init)))
     = [Opened True, Sent Subscribe DEPTH ''NSE'' ''INFY'' True,
        Sent Unsubscribe DEPTH ''NSE'' ''INFY'' True]"
proof -
  define ops where "ops = [OpConnect, OpSubscribe DEPTH ''NSE'' ''INFY'' 1, OpSubscribe DEPTH ''NSE'' ''INFY'' 2]"
  define s where "s = run env_up ops init"
  have k: "get_symbol_key ''NSE'' ''INFY'' = ''NSE:INFY''" by (simp add: get_symbol_key_def)
  have c: "callbacks_of DEPTH ''NSE:INFY'' s = [1, 2]" unfolding s_def ops_def by code_simp
  have e: "events s = [Opened True, Sent Subscribe DEPTH ''NSE'' ''INFY'' True]"
    unfolding s_def ops_def by code_simp
  have co: "connected s" unfolding s_def ops_def by code_simp
  have x: "tx env_up (events s)" by (simp add: env_up_def)
  have r: "subscriptions DEPTH s = [(''NSE:INFY'', [1, 2])]" unfolding s_def ops_def by code_simp
  note t = unsubscribe_all_callbacks [where k = DEPTH and e = "''NSE''" and sy = "''INFY''"
      and en = env_up and ops = ops and cb = None, unfolded Let_def s_def [symmetric] k]
  have u: "unsubscribe env_up DEPTH ''NSE'' ''INFY'' None s = (drop_key env_up DEPTH ''NSE'' ''INFY'' s, Ret True)"
    by (rule unsubscribe_all [of DEPTH s "''NSE''" "''INFY''" "[1, 2]"]) (use r in \<open>simp add: k\<close>)
  have d: "subscriptions DEPTH (drop_key env_up DEPTH ''NSE'' ''INFY'' s) = []"
    using r by (simp add: drop_key_def Let_def k send_unsubscribe_def emit_def)
  have "callbacks_of DEPTH ''NSE:INFY'' s = [1, 2] \<and>
    snd (unsubscribe env_up DEPTH ''NSE'' ''INFY'' None s) = Ret True \<and>
    subscriptions DEPTH (fst (unsubscribe env_up DEPTH ''NSE'' ''INFY'' None s)) = [] \<and>
    events (fst (unsubscribe env_up DEPTH ''NSE'' ''INFY'' None s))
     = [Opened True, Sent Subscribe DEPTH ''NSE'' ''INFY'' True,
        Sent Unsubscribe DEPTH ''NSE'' ''INFY'' True]"
    using t c e co x d by (simp add: u)
  then show ?thesis unfolding s_def ops_def .
qed

text \<open>
  C5. In every state that a run of the client reaches, after the dispatch of a frame of type
  \<^verbatim>\<open>ltp\<close> with exchange \<open>e\<close>, symbol \<open>sy\<close> and price \<open>p\<close>, \<^verbatim>\<open>get_ltp(e, sy)\<close> is \<open>p\<close>, whatever the
  cache held before; and the dispatch has invoked the callbacks registered for the key under
  LTP, in the order of their registration, each with \<open>(e, sy, p, frame)\<close>, and each once, as
  no callback is registered twice. The witness is the frame of the scenario: for
  \<^verbatim>\<open>{"type":"ltp","exchange":"NSE","symbol":"INFY","ltp":1500.5}\<close> the cache gives 1500.5.
\<close>

theorem ltp_frame_dispatch:
  assumes "map_of data ''type'' = Some (JStr ''ltp'')"
    and "map_of data ''exchange'' = Some (JStr e)"
    and "map_of data ''symbol'' = Some (JStr sy)"
    and "map_of data ''ltp'' = Some p"
    and "s = run en ops init"
  shows "get_ltp e sy (process_message en data s) = Some p \<and>
         events (process_message en data s) =
           events s @ map (\<lambda>c. Invoked c (LtpArgs (JStr e) (JStr sy) p data)
                                  (cb_raises en c (LtpArgs (JStr e) (JStr sy) p data)))
                          (callbacks_of LTP (get_symbol_key e sy) s) \<and>
         distinct (callbacks_of LTP (get_symbol_key e sy) s)"
proof -
  have "registry_ok (subscriptions LTP s)"
    unfolding assms(5) by (rule client_ok_registry [OF client_ok_run [OF client_ok_init]])
  then have "distinct (callbacks_of LTP (get_symbol_key e sy) s)"
    by (simp add: registry_ok_iff callbacks_of_def split: option.splits)
  then show ?thesis
    using assms(1-4) by (simp add: process_message_def handle_ltp_eq Let_def get_ltp_def)
qed

theorem ltp_frame_dispatch_witness:
  "get_ltp ''NSE'' ''INFY''
     (process_message env_up infy_ltp (run env_up [OpConnect, OpSubscribe LTP ''NSE'' ''INFY'' 4] init))
     = Some (JNum 1500.5) \<and>
   events (process_message env_up infy_ltp (run env_up [OpConnect, OpSubscribe LTP ''NSE'' ''INFY'' 4] init)) =
     [Opened True, Sent Subscribe LTP ''NSE'' ''INFY'' True,
      Invoked 4 (LtpArgs (JStr ''NSE'') (JStr ''INFY'') (JNum 1500.5) infy_ltp) False]"
proof -
  define s where "s = run env_up [OpConnect, OpSubscribe LTP ''NSE'' ''INFY'' 4] init"
  have h: "map_of infy_ltp ''type'' = Some (JStr ''ltp'')"
    "map_of infy_ltp ''exchange'' = Some (JStr ''NSE'')"
    "map_of infy_ltp ''symbol'' = Some (JStr ''INFY'')"
    "map_of infy_ltp ''ltp'' = Some (JNum 1500.5)"
    by (simp_all add: infy_ltp_def)
  have c: "callbacks_of LTP (get_symbol_key ''NSE'' ''INFY'') s = [4]"
    unfolding s_def by code_simp
  have e: "events s = [Opened True, Sent Subscribe LTP ''NSE'' ''INFY'' True]"
    unfolding s_def by code_simp
  have r: "\<not> cb_raises env_up 4 (LtpArgs (JStr ''NSE'') (JStr ''INFY'') (JNum 1500.5) infy_ltp)"
    by (simp add: env_up_def)
  have "get_ltp ''NSE'' ''INFY'' (process_message env_up infy_ltp s) = Some (JNum 1500.5) \<and>
   events (process_message env_up infy_ltp s) =
     [Opened True, Sent Subscribe LTP ''NSE'' ''INFY'' True,
      Invoked 4 (LtpArgs (JStr ''NSE'') (JStr ''INFY'') (JNum 1500.5) infy_ltp) False]"
    using ltp_frame_dispatch [OF h s_def] r by (simp add: c e)
  then show ?thesis unfolding s_def .
qed

text \<open>
  C6. When the callbacks of the key of a data frame, under the type of the frame, hold \<open>c1\<close>
  before \<open>c2\<close>, and \<open>c1\<close> raises on the arguments of the frame, then \<open>c2\<close> is still invoked
  with the same arguments, as every other callback of the key is; the round of the read loop
  that dispatched the frame returns without an exception, and the loop is still alive.
\<close>

theorem callback_error_isolated:
  assumes "map_of data ''type'' = Some (JStr (kind_str k))"
    and "callbacks_of k (frame_key en data) s = before @ c1 # between @ c2 # after"
    and "cb_raises en c1 (frame_args k data)"
    and "message_task s" and "running s" and "ws s"
  shows "message_handler en (Message data) s = (process_message en data s, Ret ()) \<and>
         events (process_message en data s) =
           events s
           @ map (\<lambda>c. Invoked c (frame_args k data) (cb_raises en c (frame_args k data))) before
           @ [Invoked c1 (frame_args k data) True]
           @ map (\<lambda>c. Invoked c (frame_args k data) (cb_raises en c (frame_args k data))) between
           @ [Invoked c2 (frame_args k data) (cb_raises en c2 (frame_args k data))]
           @ map (\<lambda>c. Invoked c (frame_args k data) (cb_raises en c (frame_args k data))) after \<and>
         message_task (process_message en data s) \<and>
         running (process_message en data s) \<and>
         ws (process_message en data s)"
  using assms by (simp add: message_handler_def process_message_events)

theorem callback_error_isolated_witness:
  "snd (message_handler env_first_raises (Message infy_quote)
     (run env_first_raises
        [OpConnect, OpSubscribe QUOTE ''NSE'' ''INFY'' 1, OpSubscribe QUOTE ''NSE'' ''INFY'' 2] init))
     = Ret () \<and>
   events (fst (message_handler env_first_raises (Message infy_quote)
     (run env_first_raises
        [OpConnect, OpSubscribe QUOTE ''NSE'' ''INFY'' 1, OpSubscribe QUOTE ''NSE'' ''INFY'' 2] init)))
     = [Opened True, Sent Subscribe QUOTE ''NSE'' ''INFY'' True,
        Invoked 1 (DataArgs (JStr ''NSE'') (JStr ''INFY'') infy_quote) True,
        Invoked 2 (DataArgs (JStr ''NSE'') (JStr ''INFY'') infy_quote) False]"
proof -
  define s where "s = run env_first_raises
        [OpConnect, OpSubscribe QUOTE ''NSE'' ''INFY'' 1, OpSubscribe QUOTE ''NSE'' ''INFY'' 2] init"
  have h1: "map_of infy_quote ''type'' = Some (JStr (kind_str QUOTE))"
    by (simp add: infy_quote_def)
  have a: "dict_get infy_quote ''exchange'' (JStr []) = JStr ''NSE''"
    "dict_get infy_quote ''symbol'' (JStr []) = JStr ''INFY''"
    by (simp_all add: infy_quote_def dict_get_def)
  have k: "frame_key env_first_raises infy_quote = ''NSE:INFY''"
    by (simp add: frame_key_def infy_quote_def dict_get_def get_symbol_key_def)
  have h2: "callbacks_of QUOTE (frame_key env_first_raises infy_quote) s = [] @ 1 # [] @ 2 # []"
    unfolding k s_def by code_simp
  have h3: "cb_raises env_first_raises 1 (frame_args QUOTE infy_quote)"
    by (simp add: env_first_raises_def)
  have h4: "message_task s" "running s" "ws s" unfolding s_def by code_simp+
  have e: "events s = [Opened True, Sent Subscribe QUOTE ''NSE'' ''INFY'' True]"
    unfolding s_def by code_simp
  have n: "\<not> cb_raises env_first_raises 2 (frame_args QUOTE infy_quote)"
    by (simp add: env_first_raises_def)
  have "snd (message_handler env_first_raises (Message infy_quote) s) = Ret () \<and>
    events (fst (message_handler env_first_raises (Message infy_quote) s))
     = [Opened True, Sent Subscribe QUOTE ''NSE'' ''INFY'' True,
        Invoked 1 (DataArgs (JStr ''NSE'') (JStr ''INFY'') infy_quote) True,
        Invoked 2 (DataArgs (JStr ''NSE'') (JStr ''INFY'') infy_quote) False]"
    using callback_error_isolated [OF h1 h2 h3 h4] n by (simp add: e a)
  then show ?thesis unfolding s_def .
qed

text \<open>
  C7. The dispatch of a frame of type \<^verbatim>\<open>quote\<close> with exchange \<open>e\<close> and symbol \<open>sy\<close> stores the
  frame in the quote cache under the key; it stores the price of the frame in the LTP cache
  under the key when the frame has the field \<^verbatim>\<open>ltp\<close>, and leaves the LTP cache as it was when
  it has not; and the callbacks it invokes are those registered for the key under QUOTE, in
  order, each with \<open>(e, sy, frame)\<close>. The LTP registry plays no part: whatever it holds, the
  same invocations are made, and a callback that is not registered for the key under QUOTE
  is not invoked. (A callback registered under both types is invoked for its QUOTE
  registration.)
\<close>

theorem quote_frame_dispatch:
  assumes "map_of data ''type'' = Some (JStr ''quote'')"
    and "map_of data ''exchange'' = Some (JStr e)"
    and "map_of data ''symbol'' = Some (JStr sy)"
  shows "get_quote e sy (process_message en data s) = Some data \<and>
         ltp_cache (process_message en data s) =
           (case map_of data ''ltp'' of
              None \<Rightarrow> ltp_cache s
            | Some v \<Rightarrow> (ltp_cache s)(get_symbol_key e sy \<mapsto> v)) \<and>
         events (process_message en data s) =
           events s @ map (\<lambda>c. Invoked c (DataArgs (JStr e) (JStr sy) data)
                                  (cb_raises en c (DataArgs (JStr e) (JStr sy) data)))
                          (callbacks_of QUOTE (get_symbol_key e sy) s) \<and>
         (\<forall>r. events (process_message en data (s\<lparr>subs_ltp := r\<rparr>)) =
                events (process_message en data s)) \<and>
         (\<forall>c a r. Invoked c a r \<in> set (drop (length (events s)) (events (process_message en data s)))
                \<longrightarrow> c \<in> set (callbacks_of QUOTE (get_symbol_key e sy) s))"
proof -
  have ev: "events (process_message en data s) =
           events s @ map (\<lambda>c. Invoked c (DataArgs (JStr e) (JStr sy) data)
                                  (cb_raises en c (DataArgs (JStr e) (JStr sy) data)))
                          (callbacks_of QUOTE (get_symbol_key e sy) s)"
    using assms by (simp add: process_message_def handle_quote_eq Let_def)
  have "\<forall>c a r. Invoked c a r \<in> set (drop (length (events s)) (events (process_message en data s)))
                \<longrightarrow> c \<in> set (callbacks_of QUOTE (get_symbol_key e sy) s)"
    unfolding ev by auto
  moreover have "get_quote e sy (process_message en data s) = Some data \<and>
         ltp_cache (process_message en data s) =
           (case map_of data ''ltp'' of
              None \<Rightarrow> ltp_cache s
            | Some v \<Rightarrow> (ltp_cache s)(get_symbol_key e sy \<mapsto> v)) \<and>
         (\<forall>r. events (process_message en data (s\<lparr>subs_ltp := r\<rparr>)) =
                events (process_message en data s))"
    using assms
    by (simp add: process_message_def handle_quote_eq Let_def get_quote_def callbacks_of_def
        split: option.splits)
  ultimately show ?thesis using ev by blast
qed

theorem quote_frame_dispatch_witness:
  "get_quote ''NSE'' ''INFY'' (process_message env_up infy_quote
     (run env_up [OpConnect, OpSubscribe LTP ''NSE'' ''INFY'' 1, OpSubscribe QUOTE ''NSE'' ''INFY'' 2] init))
     = Some infy_quote \<and>
   get_ltp ''NSE'' ''INFY'' (process_message env_up infy_quote
     (run env_up [OpConnect, OpSubscribe LTP ''NSE'' ''INFY'' 1, OpSubscribe QUOTE ''NSE'' ''INFY'' 2] init))
     = Some (JNum 1501) \<and>
   events (process_message env_up infy_quote
     (run env_up [OpConnect, OpSubscribe LTP ''NSE'' ''INFY'' 1, OpSubscribe QUOTE ''NSE'' ''INFY'' 2] init))
     = [Opened True, Sent Subscribe LTP ''NSE'' ''INFY'' True,
        Sent Subscribe QUOTE ''NSE'' ''INFY'' True,
        Invoked 2 (DataArgs (JStr ''NSE'') (JStr ''INFY'') infy_quote) False]"
proof -
  define s where "s = run env_up [OpConnect, OpSubscribe LTP ''NSE'' ''INFY'' 1, OpSubscribe QUOTE ''NSE'' ''INFY'' 2] init"
  have h: "map_of infy_quote ''type'' = Some (JStr ''quote'')"
    "map_of infy_quote ''exchange'' = Some (JStr ''NSE'')"
    "map_of infy_quote ''symbol'' = Some (JStr ''INFY'')"
    by (simp_all add: infy_quote_def)
  have l: "map_of infy_quote ''ltp'' = Some (JNum 1501)" by (simp add: infy_quote_def)
  have c: "callbacks_of QUOTE (get_symbol_key ''NSE'' ''INFY'') s = [2]"
    unfolding s_def by code_simp
  have e: "events s = [Opened True, Sent Subscribe LTP ''NSE'' ''INFY'' True,
        Sent Subscribe QUOTE ''NSE'' ''INFY'' True]"
    unfolding s_def by code_simp
  have n: "\<not> cb_raises env_up 2 (DataArgs (JStr ''NSE'') (JStr ''INFY'') infy_quote)"
    by (simp add: env_up_def)
  have "get_quote ''NSE'' ''INFY'' (process_message env_up infy_quote s) = Some infy_quote \<and>
    get_ltp ''NSE'' ''INFY'' (process_message env_up infy_quote s) = Some (JNum 1501) \<and>
    events (process_message env_up infy_quote s)
     = [Opened True, Sent Subscribe LTP ''NSE'' ''INFY'' True,
        Sent Subscribe QUOTE ''NSE'' ''INFY'' True,
        Invoked 2 (DataArgs (JStr ''NSE'') (JStr ''INFY'') infy_quote) False]"
  proof -
    note t = quote_frame_dispatch [OF h, of env_up s]
    note t1 = t [THEN conjunct1]
    note t2 = t [THEN conjunct2, THEN conjunct1]
    note t3 = t [THEN conjunct2, THEN conjunct2, THEN conjunct1]
    show ?thesis
      using t1 t2 t3 n by (simp add: c e l get_ltp_def)
  qed
  then show ?thesis unfolding s_def .
qed

text \<open>
  C8. In every state that a run of connect, disconnect, subscribe, unsubscribe and read-loop
  rounds reaches from the client as constructed, no key of any registry has an empty list
  of callbacks.
\<close>

theorem no_empty_callback_list:
  "[] \<notin> set (map snd (subscriptions k (run en ops init)))"
proof -
  have "registry_ok (subscriptions k (run en ops init))"
    by (rule client_ok_registry [OF client_ok_run [OF client_ok_init]])
  then show ?thesis
    by (auto simp: registry_ok_def list_all_iff)
qed

theorem no_empty_callback_list_witness:
  "[] \<notin> set (map snd (subscriptions LTP
      (run env_up [OpSubscribe LTP ''NSE'' ''INFY'' 1, OpSubscribe LTP ''NSE'' ''TCS'' 2,
                   OpUnsubscribe LTP ''NSE'' ''INFY'' (Some 1)] init))) \<and>
   subscriptions LTP
      (run env_up [OpSubscribe LTP ''NSE'' ''INFY'' 1, OpSubscribe LTP ''NSE'' ''TCS'' 2,
                   OpUnsubscribe LTP ''NSE'' ''INFY'' (Some 1)] init) = [(''NSE:TCS'', [2])]"
proof
  show "[] \<notin> set (map snd (subscriptions LTP
      (run env_up [OpSubscribe LTP ''NSE'' ''INFY'' 1, OpSubscribe LTP ''NSE'' ''TCS'' 2,
                   OpUnsubscribe LTP ''NSE'' ''INFY'' (Some 1)] init)))"
    by (rule no_empty_callback_list)
  show "subscriptions LTP
      (run env_up [OpSubscribe LTP ''NSE'' ''INFY'' 1, OpSubscribe LTP ''NSE'' ''TCS'' 2,
                   OpUnsubscribe LTP ''NSE'' ''INFY'' (Some 1)] init) = [(''NSE:TCS'', [2])]"
    by code_simp
qed

text \<open>
  C9. When a connected client subscribes the first callback of a key and the send of the
  request raises, the call still returns \<^verbatim>\<open>True\<close>, and after it the key is in the registry
  with the callback registered for it.
\<close>

theorem subscribe_send_failure:
  assumes "map_of (subscriptions k s) (get_symbol_key e sy) = None"
    and "connected s" and "ws s" and "\<not> tx en (events s)"
  shows "snd (subscribe en k e sy c s) = Ret True \<and>
         events (fst (subscribe en k e sy c s)) = events s @ [Sent Subscribe k e sy False] \<and>
         map_of (subscriptions k (fst (subscribe en k e sy c s))) (get_symbol_key e sy) = Some [c] \<and>
         get_symbol_key e sy \<in> set (map fst (subscriptions k (fst (subscribe en k e sy c s))))"
proof -
  have "map_of (subscriptions k (fst (subscribe en k e sy c s))) (get_symbol_key e sy) = Some [c]"
    using assms by (simp add: subscribe_new update_conv')
  moreover from this have "get_symbol_key e sy \<in> set (map fst (subscriptions k (fst (subscribe en k e sy c s))))"
    by (metis map_of_eq_None_iff option.distinct(1) set_map)
  moreover have "events (fst (subscribe en k e sy c s)) = events s @ [Sent Subscribe k e sy False]"
    using assms by (simp add: subscribe_new send_subscribe_def emit_def)
  ultimately show ?thesis by (simp add: subscribe_returns)
qed

theorem subscribe_send_failure_witness:
  "map_of (subscriptions QUOTE (run env_tx_down [OpConnect] init)) (get_symbol_key ''NSE'' ''INFY'') = None \<and>
   connected (run env_tx_down [OpConnect] init) \<and> ws (run env_tx_down [OpConnect] init) \<and>
   \<not> tx env_tx_down (events (run env_tx_down [OpConnect] init)) \<and>
   snd (subscribe env_tx_down QUOTE ''NSE'' ''INFY'' 3 (run env_tx_down [OpConnect] init)) = Ret True \<and>
   events (fst (subscribe env_tx_down QUOTE ''NSE'' ''INFY'' 3 (run env_tx_down [OpConnect] init)))
     = [Opened True, Sent Subscribe QUOTE ''NSE'' ''INFY'' False] \<and>
   map_of (subscriptions QUOTE (fst (subscribe env_tx_down QUOTE ''NSE'' ''INFY'' 3 (run env_tx_down [OpConnect] init))))
      ''NSE:INFY'' = Some [3]"
proof -
  let ?s = "run env_tx_down [OpConnect] init"
  have h: "map_of (subscriptions QUOTE ?s) (get_symbol_key ''NSE'' ''INFY'') = None"
     "connected ?s" "ws ?s" "\<not> tx env_tx_down (events ?s)"
     "events ?s = [Opened True]" "get_symbol_key ''NSE'' ''INFY'' = ''NSE:INFY''"
    by (simp_all add: connect_def init_def emit_def env_tx_down_def get_symbol_key_def)
  show ?thesis
    using h subscribe_send_failure [OF h(1-4), of 3] by simp
qed

text \<open>
  C10. \<^verbatim>\<open>disconnect\<close> leaves the registry of every subscription type empty and the three
  caches as they were: \<^verbatim>\<open>get_ltp\<close>, \<^verbatim>\<open>get_quote\<close> and \<^verbatim>\<open>get_depth\<close> give after it what they
  gave before.
\<close>

theorem disconnect_keeps_caches:
  "subscriptions k (disconnect s) = [] \<and>
   get_ltp e sy (disconnect s) = get_ltp e sy s \<and>
   get_quote e sy (disconnect s) = get_quote e sy s \<and>
   get_depth e sy (disconnect s) = get_depth e sy s \<and>
   ltp_cache (disconnect s) = ltp_cache s \<and>
   quote_cache (disconnect s) = quote_cache s \<and>
   depth_cache (disconnect s) = depth_cache s"
  by (cases k) (simp_all add: disconnect_def Let_def emit_def get_ltp_def get_quote_def get_depth_def)

theorem disconnect_keeps_caches_witness:
  "get_ltp ''NSE'' ''INFY''
     (run env_up [OpConnect, OpSubscribe LTP ''NSE'' ''INFY'' 4, OpReceive (Message infy_ltp)] init)
     = Some (JNum 1500.5) \<and>
   get_ltp ''NSE'' ''INFY'' (disconnect
     (run env_up [OpConnect, OpSubscribe LTP ''NSE'' ''INFY'' 4, OpReceive (Message infy_ltp)] init))
     = Some (JNum 1500.5) \<and>
   subscriptions LTP
     (run env_up [OpConnect, OpSubscribe LTP ''NSE'' ''INFY'' 4, OpReceive (Message infy_ltp)] init)
     = [(''NSE:INFY'', [4])] \<and>
   subscriptions LTP (disconnect
     (run env_up [OpConnect, OpSubscribe LTP ''NSE'' ''INFY'' 4, OpReceive (Message infy_ltp)] init))
     = []"
proof -
  define s where "s = run env_up [OpConnect, OpSubscribe LTP ''NSE'' ''INFY'' 4, OpReceive (Message infy_ltp)] init"
  have g: "get_ltp ''NSE'' ''INFY'' s = Some (JNum 1500.5)" unfolding s_def by code_simp
  have r: "subscriptions LTP s = [(''NSE:INFY'', [4])]" unfolding s_def by code_simp
  have "get_ltp ''NSE'' ''INFY'' s = Some (JNum 1500.5) \<and>
    get_ltp ''NSE'' ''INFY'' (disconnect s) = Some (JNum 1500.5) \<and>
    subscriptions LTP s = [(''NSE:INFY'', [4])] \<and>
    subscriptions LTP (disconnect s) = []"
    using disconnect_keeps_caches [of LTP s "''NSE''" "''INFY''"] g r by simp
  then show ?thesis unfolding s_def .
qed

end
